theory Spec2Isabelle
  imports Complex_Main "HOL-Library.AList" "HOL-Library.Word"
begin

section \<open>The persistence gateway\<close>

text \<open>
  \<open>database.ts\<close> keeps two SQLite tables, \<open>profiles\<close> and \<open>battles\<close>, behind four
  functions. A table is the list of its rows in the order of insertion. The moves of a
  battle are stored in a TEXT column as the text that \<open>JSON.stringify\<close> makes of them and
  read back with \<open>JSON.parse\<close>.
\<close>

subsection \<open>Strings\<close>

text \<open>
  A string of the language is a sequence of 16-bit code units; \<open>js\<close> makes one from a
  literal of code units below 256.
\<close>

type_synonym js_string = "16 word list"

definition js :: "string \<Rightarrow> js_string" where
  "js s = map (\<lambda>c. of_nat (of_char c)) s"

definition is_leading_surrogate :: "16 word \<Rightarrow> bool" where
  "is_leading_surrogate u \<longleftrightarrow> 0xD800 \<le> unat u \<and> unat u \<le> 0xDBFF"

definition is_trailing_surrogate :: "16 word \<Rightarrow> bool" where
  "is_trailing_surrogate u \<longleftrightarrow> 0xDC00 \<le> unat u \<and> unat u \<le> 0xDFFF"

text \<open>
  A string is well-formed when every surrogate code unit in it is half of a pair, a
  leading one followed by a trailing one. \<open>plain\<close> is a code unit that is no surrogate.
\<close>

fun well_formed :: "js_string \<Rightarrow> bool" where
  "well_formed [] = True"
| "well_formed [u] = (\<not> is_leading_surrogate u \<and> \<not> is_trailing_surrogate u)"
| "well_formed (u # v # vs) =
     (if is_leading_surrogate u then is_trailing_surrogate v \<and> well_formed vs
      else \<not> is_trailing_surrogate u \<and> well_formed (v # vs))"

definition plain :: "16 word \<Rightarrow> bool" where
  "plain u \<longleftrightarrow> \<not> is_leading_surrogate u \<and> \<not> is_trailing_surrogate u"

subsection \<open>JSON text of an array of strings\<close>

text \<open>
  \<open>JSON.stringify\<close> on an array of strings: the quoted elements, separated by commas,
  between brackets. \<open>QuoteJSONString\<close> goes through the string by code points. It
  escapes the double quote, the backslash and the code units below 0x20, five of them
  by a letter and the others as \<open>\uXXXX\<close>, and a surrogate that is not half of a pair
  as \<open>\uXXXX\<close> too, all with lower-case hexadecimal digits; every other code unit stands
  for itself.
\<close>

definition hex_digit :: "nat \<Rightarrow> 16 word" where
  "hex_digit n = of_nat (if n < 10 then 48 + n else 87 + n)"

definition UnicodeEscape :: "16 word \<Rightarrow> js_string" where
  "UnicodeEscape u =
     (let n = unat u
      in [0x5C, 0x75, hex_digit (n div 4096), hex_digit (n div 256 mod 16),
          hex_digit (n div 16 mod 16), hex_digit (n mod 16)])"

definition quote_unit :: "16 word \<Rightarrow> js_string" where
  "quote_unit u =
     (let n = unat u in
      if n = 8 then [0x5C, 0x62]
      else if n = 9 then [0x5C, 0x74]
      else if n = 10 then [0x5C, 0x6E]
      else if n = 12 then [0x5C, 0x66]
      else if n = 13 then [0x5C, 0x72]
      else if n = 34 then [0x5C, 0x22]
      else if n = 92 then [0x5C, 0x5C]
      else if n < 32 then UnicodeEscape u
      else [u])"

fun quote_units :: "js_string \<Rightarrow> js_string" where
  "quote_units [] = []"
| "quote_units [u] =
     (if is_leading_surrogate u \<or> is_trailing_surrogate u then UnicodeEscape u
      else quote_unit u)"
| "quote_units (u # v # vs) =
     (if is_leading_surrogate u then
        (if is_trailing_surrogate v then u # v # quote_units vs
         else UnicodeEscape u @ quote_units (v # vs))
      else if is_trailing_surrogate u then UnicodeEscape u @ quote_units (v # vs)
      else quote_unit u @ quote_units (v # vs))"

definition QuoteJSONString :: "js_string \<Rightarrow> js_string" where
  "QuoteJSONString s = 0x22 # quote_units s @ [0x22]"

fun join_commas :: "js_string list \<Rightarrow> js_string" where
  "join_commas [] = []"
| "join_commas [x] = x"
| "join_commas (x # y # ys) = x @ 0x2C # join_commas (y # ys)"

definition JSON_stringify :: "js_string list \<Rightarrow> js_string" where
  "JSON_stringify ms = 0x5B # join_commas (map QuoteJSONString ms) @ [0x5D]"

text \<open>
  \<open>JSON.parse\<close>, for the texts that are an array of strings: white space is allowed
  around the brackets, the elements and the commas; a string may hold any escape of the
  JSON grammar and no raw code unit below 0x20. The result is \<open>None\<close> where
  \<open>JSON.parse\<close> throws a SyntaxError, and also for a text that is another JSON value,
  which the gateway never writes (lemma \<open>written_new\<close>).
\<close>

definition is_ws :: "16 word \<Rightarrow> bool" where
  "is_ws c \<longleftrightarrow> unat c = 32 \<or> unat c = 9 \<or> unat c = 10 \<or> unat c = 13"

definition skip_ws :: "js_string \<Rightarrow> js_string" where
  "skip_ws cs = dropWhile is_ws cs"

definition hex_value :: "16 word \<Rightarrow> nat option" where
  "hex_value c =
     (let n = unat c in
      if 48 \<le> n \<and> n \<le> 57 then Some (n - 48)
      else if 97 \<le> n \<and> n \<le> 102 then Some (n - 87)
      else if 65 \<le> n \<and> n \<le> 70 then Some (n - 55)
      else None)"

definition unescape :: "16 word \<Rightarrow> 16 word option" where
  "unescape e =
     (let n = unat e in
      if n = 34 then Some 0x22
      else if n = 92 then Some 0x5C
      else if n = 47 then Some 0x2F
      else if n = 98 then Some 0x08
      else if n = 102 then Some 0x0C
      else if n = 110 then Some 0x0A
      else if n = 114 then Some 0x0D
      else if n = 116 then Some 0x09
      else None)"

definition hex4 :: "16 word \<Rightarrow> 16 word \<Rightarrow> 16 word \<Rightarrow> 16 word \<Rightarrow> 16 word option" where
  "hex4 a b c d =
     (case (hex_value a, hex_value b, hex_value c, hex_value d) of
        (Some h1, Some h2, Some h3, Some h4) \<Rightarrow>
          Some (of_nat (((h1 * 16 + h2) * 16 + h3) * 16 + h4))
      | _ \<Rightarrow> None)"

fun scan_string :: "js_string \<Rightarrow> (js_string \<times> js_string) option" where
  "scan_string [] = None"
| "scan_string (c # cs) =
     (if unat c = 34 then Some ([], cs)
      else if unat c = 92 then
        (case cs of
           [] \<Rightarrow> None
         | e # cs1 \<Rightarrow>
             if unat e = 117 then
               (case cs1 of
                  a # b # c # d # cs2 \<Rightarrow>
                    (case hex4 a b c d of
                       None \<Rightarrow> None
                     | Some ch \<Rightarrow> map_option (apfst ((#) ch)) (scan_string cs2))
                | _ \<Rightarrow> None)
             else
               (case unescape e of
                  None \<Rightarrow> None
                | Some ch \<Rightarrow> map_option (apfst ((#) ch)) (scan_string cs1)))
      else if unat c < 32 then None
      else map_option (apfst ((#) c)) (scan_string cs))"

text \<open>What \<open>scan_string\<close> leaves is shorter than what it was given, which makes the scan
  of the elements terminate.\<close>

lemma scan_string_shorter: "scan_string cs = Some (s, r) \<Longrightarrow> length r < length cs"
proof (induction cs arbitrary: s r rule: length_induct)
  case (1 cs)
  have IH: "length r' < length ys" if "length ys < length cs" "scan_string ys = Some (s', r')"
    for ys s' r'
    using 1(1) that by blast
  from 1(2) obtain c cs0 where cs: "cs = c # cs0" by (cases cs) auto
  show ?case
  proof (cases "unat c = 34")
    case True
    with 1(2) cs show ?thesis by simp
  next
    case quote: False
    show ?thesis
    proof (cases "unat c = 92")
      case False
      with quote 1(2) cs obtain s' where "scan_string cs0 = Some (s', r)"
        by (auto split: if_splits)
      with IH [of cs0 s' r] cs show ?thesis by simp
    next
      case True
      with 1(2) cs obtain e cs1 where cs0: "cs0 = e # cs1"
        by (cases cs0) auto
      show ?thesis
      proof (cases "unat e = 117")
        case False
        with True 1(2) cs cs0 obtain s' where "scan_string cs1 = Some (s', r)"
          by (auto split: option.splits)
        with IH [of cs1 s' r] cs cs0 show ?thesis by simp
      next
        case u: True
        with True 1(2) cs cs0 obtain a b c' d cs2 s'
          where "cs1 = a # b # c' # d # cs2" "scan_string cs2 = Some (s', r)"
          by (auto split: list.splits option.splits)
        with IH [of cs2 s' r] cs cs0 show ?thesis by simp
      qed
    qed
  qed
qed

function scan_elements :: "js_string \<Rightarrow> (js_string list \<times> js_string) option" where
  "scan_elements cs =
     (case skip_ws cs of
        [] \<Rightarrow> None
      | q # r \<Rightarrow>
          if unat q \<noteq> 34 then None
          else
            (case scan_string r of
               None \<Rightarrow> None
             | Some (s, r1) \<Rightarrow>
                 (case skip_ws r1 of
                    [] \<Rightarrow> None
                  | c # r2 \<Rightarrow>
                      if unat c = 44 then map_option (apfst ((#) s)) (scan_elements r2)
                      else if unat c = 93 then Some ([s], r2)
                      else None)))"
  by pat_completeness auto
termination
proof (relation "measure length")
  show "wf (measure length)" by simp
next
  fix cs q r x2 s r1 c r2
  assume a: "skip_ws cs = q # r" "scan_string r = Some x2" "(s, r1) = x2" "skip_ws r1 = c # r2"
  have le: "length (skip_ws xs) \<le> length xs" for xs
    by (simp add: skip_ws_def length_dropWhile_le)
  from a(2,3) have "length r1 < length r" by (auto dest: scan_string_shorter)
  moreover from a(4) le [of r1] have "length r2 < length r1" by simp
  moreover from a(1) le [of cs] have "length r < length cs" by simp
  ultimately show "(r2, cs) \<in> measure length" by simp
qed

definition JSON_parse :: "js_string \<Rightarrow> js_string list option" where
  "JSON_parse text =
     (case skip_ws text of
        [] \<Rightarrow> None
      | b # r \<Rightarrow>
          if unat b \<noteq> 91 then None
          else
            (case skip_ws r of
               [] \<Rightarrow> None
             | c # r1 \<Rightarrow>
                 if unat c = 93 then (if skip_ws r1 = [] then Some [] else None)
                 else
                   (case scan_elements r of
                      None \<Rightarrow> None
                    | Some (ms, r2) \<Rightarrow> if skip_ws r2 = [] then Some ms else None)))"

subsection \<open>Rows\<close>

text \<open>
  A row of \<open>profiles\<close>, over the type \<open>'t\<close> of the values of a TEXT column;
  \<open>BlobProfile\<close> is the object of the language, with strings.
\<close>

record 't profile_row =
  userId :: 't
  username :: 't
  wins :: int
  losses :: int
  lastActive :: int
  evolutionLevel :: int

type_synonym BlobProfile = "js_string profile_row"

text \<open>
  A battle, over the type \<open>'t\<close> of its texts and the type \<open>'m\<close> of its moves:
  \<open>BlobBattleRecord\<close> has strings and a list of strings, the object that is handed to
  the statement has strings and the JSON text, a row of the table has values of TEXT
  columns. The field \<open>id\<close> is written \<open>id'\<close>. The \<open>date\<close> is a finite number. A
  \<open>winner\<close> that is \<open>None\<close> is an object without the property.
\<close>

record ('t, 'm) battle_record =
  id' :: 't
  player1 :: 't
  player2 :: 't
  winner :: "'t option"
  date :: real
  moves :: 'm

type_synonym BlobBattleRecord = "(js_string, js_string list) battle_record"

type_synonym 't battle_row = "('t, 't) battle_record"

text \<open>\<open>{...battle, moves: m}\<close>\<close>

definition with_moves :: "('t, 'a) battle_record \<Rightarrow> 'b \<Rightarrow> ('t, 'b) battle_record" where
  "with_moves r m = \<lparr>id' = id' r, player1 = player1 r, player2 = player2 r,
                      winner = winner r, date = date r, moves = m\<rparr>"

text \<open>
  The database: the two tables and the connection's \<open>foreign_keys\<close> setting, which the
  source never sets and which decides whether the FOREIGN KEY clauses of the table
  \<open>battles\<close> are enforced.
\<close>

record 't db =
  foreign_keys :: bool
  profiles_table :: "'t profile_row list"
  battles_table :: "'t battle_row list"

text \<open>
  What a statement throws: an error of SQLite, the driver's \<open>RangeError\<close> for a named
  parameter that the object does not have, and the \<open>SyntaxError\<close> of \<open>JSON.parse\<close>.
\<close>

datatype db_error = SqliteError string | RangeError string | SyntaxError

definition new_db :: "bool \<Rightarrow> 't db" where
  "new_db fk = \<lparr>foreign_keys = fk, profiles_table = [], battles_table = []\<rparr>"

subsection \<open>Text columns\<close>

text \<open>
  The driver writes a string into a TEXT column as UTF-8 and makes a string of the UTF-8
  it reads. The two conversions are the parameters \<open>enc\<close> and \<open>dec\<close> of the functions
  below. The theorem on the moves assumes of them that a well-formed string is read back
  as it was written; what becomes of a string with an unpaired surrogate depends on the
  driver, and nothing is assumed about it. SQLite compares the stored values.
\<close>

definition bind_profile :: "(js_string \<Rightarrow> 't) \<Rightarrow> BlobProfile \<Rightarrow> 't profile_row" where
  "bind_profile enc p =
     \<lparr>userId = enc (userId p), username = enc (username p), wins = wins p,
      losses = losses p, lastActive = lastActive p, evolutionLevel = evolutionLevel p\<rparr>"

definition read_profile :: "('t \<Rightarrow> js_string) \<Rightarrow> 't profile_row \<Rightarrow> BlobProfile" where
  "read_profile dec r =
     \<lparr>userId = dec (userId r), username = dec (username r), wins = wins r,
      losses = losses r, lastActive = lastActive r, evolutionLevel = evolutionLevel r\<rparr>"

definition bind_battle ::
  "(js_string \<Rightarrow> 't) \<Rightarrow> (js_string, js_string) battle_record \<Rightarrow> 't battle_row" where
  "bind_battle enc b =
     \<lparr>id' = enc (id' b), player1 = enc (player1 b), player2 = enc (player2 b),
      winner = map_option enc (winner b), date = date b, moves = enc (moves b)\<rparr>"

definition read_battle ::
  "('t \<Rightarrow> js_string) \<Rightarrow> 't battle_row \<Rightarrow> (js_string, js_string) battle_record" where
  "read_battle dec r =
     \<lparr>id' = dec (id' r), player1 = dec (player1 r), player2 = dec (player2 r),
      winner = map_option dec (winner r), date = date r, moves = dec (moves r)\<rparr>"

subsection \<open>The four functions\<close>

text \<open>
  \<open>saveProfile\<close> takes the value of \<open>Date.now()\<close> as its second argument. The statement
  \<open>insertBattle\<close> throws a \<open>RangeError\<close> when the object has no \<open>winner\<close>; it fails on
  a second row with the same \<open>id\<close>, the primary key, and, when foreign keys are enforced,
  on a player or winner without a profile. The statement \<open>getRecentBattles\<close> sorts by
  \<open>date\<close>, greatest first, and returns the first ten; rows of the same date are taken
  in the order of insertion, which SQLite does not promise and on which no theorem below
  depends.
\<close>

definition getProfile ::
  "(js_string \<Rightarrow> 't) \<Rightarrow> ('t \<Rightarrow> js_string) \<Rightarrow> js_string \<Rightarrow> 't db \<Rightarrow> BlobProfile option" where
  "getProfile enc dec uid d =
     map_option (read_profile dec) (find (\<lambda>p. userId p = enc uid) (profiles_table d))"

definition updateProfile :: "(js_string \<Rightarrow> 't) \<Rightarrow> BlobProfile \<Rightarrow> 't db \<Rightarrow> 't db" where
  "updateProfile enc p d =
     (let row = bind_profile enc p
      in if userId row \<in> set (map userId (profiles_table d))
         then d\<lparr>profiles_table :=
                  map (\<lambda>q. if userId q = userId row then row else q) (profiles_table d)\<rparr>
         else d\<lparr>profiles_table := profiles_table d @ [row]\<rparr>)"

definition saveProfile :: "(js_string \<Rightarrow> 't) \<Rightarrow> int \<Rightarrow> BlobProfile \<Rightarrow> 't db \<Rightarrow> 't db" where
  "saveProfile enc now profile d = updateProfile enc (profile\<lparr>lastActive := now\<rparr>) d"

definition references_profile :: "'t \<Rightarrow> 't db \<Rightarrow> bool" where
  "references_profile uid d \<longleftrightarrow> uid \<in> set (map userId (profiles_table d))"

definition insertBattle ::
  "(js_string \<Rightarrow> 't) \<Rightarrow> (js_string, js_string) battle_record \<Rightarrow> 't db \<Rightarrow> db_error + 't db" where
  "insertBattle enc params d =
     (case winner params of
        None \<Rightarrow>
          Inl (RangeError (''Missing named parameter '' @ [CHR 0x22] @ ''winner'' @ [CHR 0x22]))
      | Some w \<Rightarrow>
          let row = bind_battle enc params
          in if id' row \<in> set (map id' (battles_table d))
             then Inl (SqliteError ''UNIQUE constraint failed: battles.id'')
             else if foreign_keys d \<and>
                     \<not> (references_profile (player1 row) d \<and> references_profile (player2 row) d
                        \<and> references_profile (enc w) d)
             then Inl (SqliteError ''FOREIGN KEY constraint failed'')
             else Inr (d\<lparr>battles_table := battles_table d @ [row]\<rparr>))"

definition getRecentBattles_statement :: "'t db \<Rightarrow> 't battle_row list" where
  "getRecentBattles_statement d = take 10 (sort_key (\<lambda>r. - date r) (battles_table d))"

definition recordBattle ::
  "(js_string \<Rightarrow> 't) \<Rightarrow> BlobBattleRecord \<Rightarrow> 't db \<Rightarrow> db_error + js_string \<times> 't db" where
  "recordBattle enc battle d =
     (case insertBattle enc (with_moves battle (JSON_stringify (moves battle))) d of
        Inl e \<Rightarrow> Inl e
      | Inr d' \<Rightarrow> Inr (id' battle, d'))"

text \<open>\<open>battles.map(battle => ({...battle, moves: JSON.parse(battle.moves)}))\<close>\<close>

fun parse_rows ::
  "(js_string, js_string) battle_record list \<Rightarrow> db_error + BlobBattleRecord list" where
  "parse_rows [] = Inr []"
| "parse_rows (r # rs) =
     (case JSON_parse (moves r) of
        None \<Rightarrow> Inl SyntaxError
      | Some ms \<Rightarrow>
          (case parse_rows rs of
             Inl e \<Rightarrow> Inl e
           | Inr bs \<Rightarrow> Inr (with_moves r ms # bs)))"

definition getRecentBattles ::
  "('t \<Rightarrow> js_string) \<Rightarrow> 't db \<Rightarrow> db_error + BlobBattleRecord list" where
  "getRecentBattles dec d = parse_rows (map (read_battle dec) (getRecentBattles_statement d))"

text \<open>The calls that write to the database; a call that throws leaves it as it was.\<close>

datatype db_call = SaveProfile int BlobProfile | RecordBattle BlobBattleRecord

fun call :: "(js_string \<Rightarrow> 't) \<Rightarrow> db_call \<Rightarrow> 't db \<Rightarrow> 't db" where
  "call enc (SaveProfile now p) d = saveProfile enc now p d"
| "call enc (RecordBattle b) d =
     (case recordBattle enc b d of Inl e \<Rightarrow> d | Inr (i, d') \<Rightarrow> d')"

text \<open>A row whose \<open>moves\<close> are read as a text that \<open>JSON.parse\<close> accepts.\<close>

definition written :: "('t \<Rightarrow> js_string) \<Rightarrow> 't battle_row \<Rightarrow> bool" where
  "written dec r \<longleftrightarrow> JSON_parse (dec (moves r)) \<noteq> None"

subsection \<open>Example databases\<close>

text \<open>
  A driver for the examples: it replaces every unpaired surrogate by U+FFFD when it
  writes, and reads what is stored as it is.
\<close>

fun replace_unpaired :: "js_string \<Rightarrow> js_string" where
  "replace_unpaired [] = []"
| "replace_unpaired [u] =
     (if is_leading_surrogate u \<or> is_trailing_surrogate u then [0xFFFD] else [u])"
| "replace_unpaired (u # v # vs) =
     (if is_leading_surrogate u then
        (if is_trailing_surrogate v then u # v # replace_unpaired vs
         else 0xFFFD # replace_unpaired (v # vs))
      else if is_trailing_surrogate u then 0xFFFD # replace_unpaired (v # vs)
      else u # replace_unpaired (v # vs))"

definition ex_decode :: "js_string \<Rightarrow> js_string" where
  "ex_decode s = s"

text \<open>A record whose texts this driver stores as they are.\<close>

definition stored_as_given :: "BlobBattleRecord \<Rightarrow> bool" where
  "stored_as_given b \<longleftrightarrow>
     replace_unpaired (id' b) = id' b \<and> replace_unpaired (player1 b) = player1 b
     \<and> replace_unpaired (player2 b) = player2 b
     \<and> map_option replace_unpaired (winner b) = winner b"

text \<open>
  Two profiles, ten battles of decreasing date, and two battles with the same three
  moves: the second has a double quote, the third a character outside the Basic
  Multilingual Plane and an unpaired surrogate.
\<close>

definition ex_profile :: "string \<Rightarrow> BlobProfile" where
  "ex_profile u = \<lparr>userId = js u, username = js u, wins = 0, losses = 0, lastActive = 0,
                    evolutionLevel = 0\<rparr>"

definition ex_battle :: "string \<Rightarrow> real \<Rightarrow> js_string list \<Rightarrow> BlobBattleRecord" where
  "ex_battle i t ms = \<lparr>id' = js i, player1 = js ''u1'', player2 = js ''u2'',
                        winner = Some (js ''u1''), date = t, moves = ms\<rparr>"

definition ex_profiles :: "db_call list" where
  "ex_profiles = [SaveProfile 1000 (ex_profile ''u1''), SaveProfile 1000 (ex_profile ''u2'')]"

definition ex_ten :: "BlobBattleRecord list" where
  "ex_ten = map (\<lambda>(i, t). ex_battle i t [js ''jab''])
              [(''b0'', 109), (''b1'', 108), (''b2'', 107), (''b3'', 106), (''b4'', 105),
               (''b5'', 104), (''b6'', 103), (''b7'', 102), (''b8'', 101), (''b9'', 100)]"

definition ex_three_moves :: "js_string list" where
  "ex_three_moves = [js ''m1'', [0x6D, 0x22, 0x32], [0x4E2D, 0xD83D, 0xDE00, 0xD800]]"

definition ex_first :: BlobBattleRecord where
  "ex_first = ex_battle ''first'' 50 ex_three_moves"

definition ex_late :: BlobBattleRecord where
  "ex_late = ex_battle ''late'' 1 ex_three_moves"

definition ex_db :: "js_string db" where
  "ex_db = fold (call replace_unpaired) ex_profiles (new_db True)"

definition ex_db_full :: "js_string db" where
  "ex_db_full = fold (call replace_unpaired) (ex_profiles @ map RecordBattle ex_ten) (new_db True)"

section \<open>The matchmaking and battle relay server\<close>

text \<open>
  The server keeps two process-wide variables, \<open>matchmakingQueue\<close> (an array) and
  \<open>battles\<close> (an object used as a dictionary from battle id to a battle object). Every
  inbound socket message, every disconnect and every timer tick runs to completion, so
  the server is a function from a state and an input to a new state and the list of
  events it emitted.

  Strings of the source are \<open>string\<close>. The fields \<open>userId\<close> and \<open>battleId\<close> of a
  message are taken as present strings (the types the source declares for them); the
  optional fields \<open>username\<close> and \<open>appearance\<close> are options, \<open>None\<close> standing for a
  missing or falsy value, which the source replaces by a default. The \<open>appearance\<close>
  payload is opaque to the server and is kept as a string. The gameplay payload
  \<open>message.message\<close> of a \<open>SEND_BATTLE_MESSAGE\<close> is taken as present. The win counters
  are natural numbers. Calls to \<open>console.log\<close> and the per-connection \<open>userSocketMap\<close>,
  which is written and never read, are left out.

  A handler that throws has the error as its result. Nothing catches it, so the process
  ends there and handles no further input.
\<close>

subsection \<open>Data\<close>

record queue_entry =
  userId :: string
  username :: string
  socketId :: string
  appearance :: string

record player = queue_entry +
  wins :: nat

record battle =
  battleId :: string
  code :: string
  player1 :: player
  player2 :: "player option"
  started :: bool

text \<open>
  The part of a gameplay payload that the server reads: \<open>message.gameOver\<close> (by its
  truthiness) and \<open>message.syncData?.winner\<close>, a value of any type that the source
  tests for truthiness and compares with the numbers 1 and 2 by \<open>===\<close>. The rest of the
  payload is forwarded as it is.
\<close>

datatype js_value = JUndefined | JNumber int | JString string | JBool bool

fun truthy :: "js_value \<Rightarrow> bool" where
  "truthy JUndefined = False"
| "truthy (JNumber n) = (n \<noteq> 0)"
| "truthy (JString s) = (s \<noteq> [])"
| "truthy (JBool b) = b"

record sync_data =
  winner :: js_value

record battle_message =
  gameOver :: bool
  syncData :: "sync_data option"
  content :: string

text \<open>Inbound messages, one constructor for each \<open>message.type\<close> of the \<open>switch\<close>,
  carrying the fields its case reads; any other type falls through the \<open>switch\<close>.\<close>

datatype message =
    JOIN_QUEUE string "string option" "string option"
  | LEAVE_QUEUE string
  | GET_QUEUE
  | CREATE_BATTLE string string "string option" "string option"
  | JOIN_BATTLE string string "string option" "string option"
  | SEND_BATTLE_MESSAGE string string battle_message
  | LEAVE_BATTLE string string
  | PING
  | UNKNOWN string

datatype server_event =
    CONNECTED
  | QUEUE_UPDATE "queue_entry list"
  | MATCH_FOUND string string string
  | BATTLE_CODE_GENERATED string
  | ERROR string
  | BATTLE_WIN_STATE nat nat
  | BATTLE_MESSAGE battle_message string
  | OPPONENT_DISCONNECTED
  | PONG

text \<open>\<open>io.to(id).emit\<close> and \<open>socket.emit\<close> address one socket, \<open>io.emit\<close> all of them.\<close>

datatype target = To string | Everyone

type_synonym emitted = "(target \<times> server_event) list"

text \<open>
  A battle is a mutable object: the join and the win bookkeeping update it in place,
  and \<open>battles[id] = {...}\<close> binds the key to a newly created object. The state
  therefore has a store of battle objects, addressed by their index, and the dictionary
  \<open>battles\<close> binds keys to addresses. The dictionary is an association list of its own
  keys in the order in which they were first bound. JavaScript lists integer-like keys
  first, which is left out: the order decides only in which order a disconnect notifies,
  since the search of a join has at most one match (lemma \<open>battleToJoin_lookup\<close>).

  \<open>battles\<close> is a plain object, so it has a prototype: \<open>Object.prototype\<close> at first, and
  the battle object last assigned to \<open>battles['__proto__']\<close> after such an assignment,
  which adds no own key. The field \<open>proto\<close> is \<open>None\<close> in the first case and the address
  of that battle object in the second.
\<close>

record server_state =
  matchmakingQueue :: "queue_entry list"
  battles :: "(string \<times> nat) list"
  heap :: "battle list"
  proto :: "nat option"

definition initial :: server_state where
  "initial = \<lparr>matchmakingQueue = [], battles = [], heap = [], proto = None\<rparr>"

datatype js_error = TypeError

subsection \<open>Helpers of the language\<close>

text \<open>\<open>Array.prototype.shift\<close>: the first element, or \<open>undefined\<close> on an empty array.\<close>

definition shift :: "'a list \<Rightarrow> 'a option \<times> 'a list" where
  "shift xs = (case xs of [] \<Rightarrow> (None, []) | x # r \<Rightarrow> (Some x, r))"

text \<open>\<open>v || d\<close> on an optional string: the empty string is falsy too.\<close>

definition or_default :: "string option \<Rightarrow> string \<Rightarrow> string" where
  "or_default v d = (case v of None \<Rightarrow> d | Some x \<Rightarrow> if x = [] then d else x)"

text \<open>\<open>{...entry, wins: 0}\<close>\<close>

definition with_wins :: "queue_entry \<Rightarrow> nat \<Rightarrow> player" where
  "with_wins p n = \<lparr>userId = userId p, username = username p, socketId = socketId p,
                     appearance = appearance p, wins = n\<rparr>"

text \<open>
  \<open>battles[id] = b\<close> with \<open>b\<close> a new object. The key \<open>__proto__\<close>, unless it is an own
  key, is the accessor that \<open>battles\<close> inherits: the assignment makes \<open>b\<close> the prototype
  of \<open>battles\<close> and adds no key.
\<close>

definition bind_new :: "string \<Rightarrow> battle \<Rightarrow> server_state \<Rightarrow> server_state" where
  "bind_new k b s =
     (if k = ''__proto__'' \<and> map_of (battles s) k = None
      then s\<lparr>heap := heap s @ [b], proto := Some (length (heap s))\<rparr>
      else s\<lparr>battles := AList.update k (length (heap s)) (battles s),
             heap := heap s @ [b]\<rparr>)"

text \<open>\<open>delete battles[id]\<close> removes an own key and nothing else.\<close>

definition unbind :: "string \<Rightarrow> server_state \<Rightarrow> server_state" where
  "unbind k s = s\<lparr>battles := AList.delete k (battles s)\<rparr>"

text \<open>
  \<open>battles[id]\<close> as the handlers use it, to test it for truthiness and then to read the
  fields of a battle from it. An own key gives its battle object. Otherwise the value
  is inherited: \<open>__proto__\<close> gives the prototype itself; a name of a field of the
  prototype battle gives that field; a name of a member of \<open>Object.prototype\<close> gives that
  member. \<open>Other\<close> is a truthy value that is not a battle: it has no \<open>player1\<close>, and reading
  \<open>player1.userId\<close> or \<open>player1.wins\<close> from it throws a TypeError.
\<close>

datatype property = Falsy | Battle nat | Other

definition Object_prototype_members :: "string list" where
  "Object_prototype_members =
     [''constructor'', ''__defineGetter__'', ''__defineSetter__'', ''hasOwnProperty'',
      ''__lookupGetter__'', ''__lookupSetter__'', ''isPrototypeOf'', ''propertyIsEnumerable'',
      ''toString'', ''valueOf'', ''__proto__'', ''toLocaleString'']"

definition inherited :: "string \<Rightarrow> server_state \<Rightarrow> property" where
  "inherited k s =
     (case proto s of
        None \<Rightarrow> if k \<in> set Object_prototype_members then Other else Falsy
      | Some r \<Rightarrow>
          let b = heap s ! r in
          if k = ''__proto__'' then Battle r
          else if k = ''battleId'' then (if battleId b = [] then Falsy else Other)
          else if k = ''code'' then (if code b = [] then Falsy else Other)
          else if k = ''player1'' then Other
          else if k = ''player2'' \<and> player2 b \<noteq> None then Other
          else if k = ''started'' then (if started b then Other else Falsy)
          else if k \<in> set Object_prototype_members then Other
          else Falsy)"

definition lookup :: "string \<Rightarrow> server_state \<Rightarrow> property" where
  "lookup k s = (case map_of (battles s) k of Some r \<Rightarrow> Battle r | None \<Rightarrow> inherited k s)"

subsection \<open>Matchmaking\<close>

definition broadcastQueueUpdate :: "server_state \<Rightarrow> emitted" where
  "broadcastQueueUpdate s = [(Everyone, QUEUE_UPDATE (matchmakingQueue s))]"

text \<open>
  \<open>processMatchmaking\<close>; the two strings are what \<open>randomUUID()\<close> and
  \<open>generateBattleCode()\<close> return when they are called.
\<close>

definition processMatchmaking :: "string \<Rightarrow> string \<Rightarrow> server_state \<Rightarrow> server_state \<times> emitted" where
  "processMatchmaking uuid gen s =
     (if length (matchmakingQueue s) < 2 then (s, [])
      else
        (case shift (matchmakingQueue s) of (first, q1) \<Rightarrow>
         case shift q1 of (second, q2) \<Rightarrow>
           let s1 = s\<lparr>matchmakingQueue := q2\<rparr> in
           (case (first, second) of
              (Some p1, Some p2) \<Rightarrow>
                let s2 = bind_new uuid
                           \<lparr>battleId = uuid, code = gen, player1 = with_wins p1 0,
                            player2 = Some (with_wins p2 0), started = True\<rparr> s1
                in (s2, [(To (socketId p1), MATCH_FOUND uuid (username p2) (appearance p2)),
                         (To (socketId p2), MATCH_FOUND uuid (username p1) (appearance p1))]
                        @ broadcastQueueUpdate s2)
            | _ \<Rightarrow> (s1, []))))"

subsection \<open>The message handler\<close>

definition join_queue ::
  "string \<Rightarrow> string \<Rightarrow> string \<Rightarrow> string \<Rightarrow> string option \<Rightarrow> string option \<Rightarrow>
   server_state \<Rightarrow> server_state \<times> emitted" where
  "join_queue uuid gen sid uid uname app s =
     (let playerInfo = \<lparr>userId = uid, username = or_default uname ''Anonymous'',
                         socketId = sid, appearance = or_default app ''{}''\<rparr>;
          s1 = s\<lparr>matchmakingQueue := filter (\<lambda>p. userId p \<noteq> uid) (matchmakingQueue s)\<rparr>;
          s2 = s1\<lparr>matchmakingQueue := matchmakingQueue s1 @ [playerInfo]\<rparr>;
          out = broadcastQueueUpdate s2
      in case processMatchmaking uuid gen s2 of (s3, out') \<Rightarrow> (s3, out @ out'))"

definition leave_queue :: "string \<Rightarrow> server_state \<Rightarrow> server_state \<times> emitted" where
  "leave_queue uid s =
     (let s1 = s\<lparr>matchmakingQueue := filter (\<lambda>p. userId p \<noteq> uid) (matchmakingQueue s)\<rparr>
      in (s1, broadcastQueueUpdate s1))"

definition create_battle ::
  "string \<Rightarrow> string \<Rightarrow> string \<Rightarrow> string option \<Rightarrow> string option \<Rightarrow>
   server_state \<Rightarrow> server_state \<times> emitted" where
  "create_battle sid bid uid uname app s =
     (let battleCode = bid;
          s1 = bind_new bid
                 \<lparr>battleId = bid, code = battleCode,
                  player1 = \<lparr>userId = uid, username = or_default uname ''Anonymous'',
                             socketId = sid, appearance = or_default app ''{}'', wins = 0\<rparr>,
                  player2 = None, started = False\<rparr> s
      in (s1, [(To sid, BATTLE_CODE_GENERATED battleCode)]))"

text \<open>\<open>Object.values(battles).find(b => b.battleId === message.battleId && !b.started)\<close>,
  returning the address of the object found.\<close>

definition battleToJoin :: "string \<Rightarrow> server_state \<Rightarrow> nat option" where
  "battleToJoin bid s =
     map_option snd
       (find (\<lambda>(k, r). battleId (heap s ! r) = bid \<and> \<not> started (heap s ! r)) (battles s))"

definition join_battle ::
  "string \<Rightarrow> string \<Rightarrow> string \<Rightarrow> string option \<Rightarrow> string option \<Rightarrow>
   server_state \<Rightarrow> server_state \<times> emitted" where
  "join_battle sid bid uid uname app s =
     (case battleToJoin bid s of
        None \<Rightarrow> (s, [(To sid, ERROR ''Invalid battle code or battle already started'')])
      | Some r \<Rightarrow>
          let b = heap s ! r;
              p2 = \<lparr>userId = uid, username = or_default uname ''Anonymous'',
                    socketId = sid, appearance = or_default app ''{}'', wins = 0\<rparr>;
              b' = b\<lparr>player2 := Some p2, started := True\<rparr>
          in (s\<lparr>heap := (heap s)[r := b']\<rparr>,
              [(To (socketId (player1 b')), MATCH_FOUND (battleId b') (username p2) (appearance p2)),
               (To sid, MATCH_FOUND (battleId b') (username (player1 b')) (appearance (player1 b')))]))"

text \<open>The win bookkeeping of \<open>SEND_BATTLE_MESSAGE\<close>: the battle object after the two
  guarded increments.\<close>

definition update_wins :: "string \<Rightarrow> js_value \<Rightarrow> battle \<Rightarrow> battle" where
  "update_wins uid w b =
     (if w = JNumber 1 \<and> uid = userId (player1 b)
      then b\<lparr>player1 := (player1 b)\<lparr>wins := wins (player1 b) + 1\<rparr>\<rparr>
      else if w = JNumber 2 \<and> (case player2 b of None \<Rightarrow> False | Some p2 \<Rightarrow> uid = userId p2)
      then (case player2 b of
              None \<Rightarrow> b
            | Some p2 \<Rightarrow> b\<lparr>player2 := Some (p2\<lparr>wins := wins p2 + 1\<rparr>)\<rparr>)
      else b)"

definition winner_of :: "battle_message \<Rightarrow> js_value" where
  "winner_of m = (case syncData m of None \<Rightarrow> JUndefined | Some d \<Rightarrow> winner d)"

text \<open>
  \<open>SEND_BATTLE_MESSAGE\<close>. On a truthy value that is not a battle, every path reads
  \<open>battle.player1.userId\<close> or \<open>battle.player1.wins\<close> before it emits or changes
  anything, and throws.
\<close>

definition send_battle_message ::
  "string \<Rightarrow> string \<Rightarrow> string \<Rightarrow> battle_message \<Rightarrow> server_state \<Rightarrow>
   js_error + server_state \<times> emitted" where
  "send_battle_message sid bid uid m s =
     (case lookup bid s of
        Falsy \<Rightarrow> Inr (s, [(To sid, ERROR ''Battle not found'')])
      | Other \<Rightarrow> Inl TypeError
      | Battle r \<Rightarrow> Inr (
          let b0 = heap s ! r;
              (b, out1) =
                (if gameOver m \<and> truthy (winner_of m) then
                   let b1 = update_wins uid (winner_of m) b0;
                       winState = BATTLE_WIN_STATE (wins (player1 b1))
                                    (case player2 b1 of None \<Rightarrow> 0 | Some p2 \<Rightarrow> wins p2)
                   in (b1, (To (socketId (player1 b1)), winState) #
                           (case player2 b1 of None \<Rightarrow> []
                            | Some p2 \<Rightarrow> [(To (socketId p2), winState)]))
                 else (b0, []));
              recipientSocketId =
                (if userId (player1 b) = uid then map_option socketId (player2 b)
                 else if (case player2 b of None \<Rightarrow> False | Some p2 \<Rightarrow> userId p2 = uid)
                 then Some (socketId (player1 b))
                 else None);
              out2 = (case recipientSocketId of
                        None \<Rightarrow> []
                      | Some t \<Rightarrow> if t = [] then [] else [(To t, BATTLE_MESSAGE m uid)])
          in (s\<lparr>heap := (heap s)[r := b]\<rparr>, out1 @ out2)))"

text \<open>\<open>LEAVE_BATTLE\<close>; a truthy value that is not a battle throws at
  \<open>battleToLeave.player1.userId\<close>.\<close>

definition leave_battle ::
  "string \<Rightarrow> string \<Rightarrow> server_state \<Rightarrow> js_error + server_state \<times> emitted" where
  "leave_battle bid uid s =
     (case lookup bid s of
        Falsy \<Rightarrow> Inr (s, [])
      | Other \<Rightarrow> Inl TypeError
      | Battle r \<Rightarrow> Inr (
          let battleToLeave = heap s ! r;
              opponentSocketId =
                (if userId (player1 battleToLeave) = uid
                 then map_option socketId (player2 battleToLeave)
                 else if (case player2 battleToLeave of None \<Rightarrow> False
                          | Some p2 \<Rightarrow> userId p2 = uid)
                 then Some (socketId (player1 battleToLeave))
                 else None);
              out = (case opponentSocketId of
                       None \<Rightarrow> []
                     | Some t \<Rightarrow> if t = [] then [] else [(To t, OPPONENT_DISCONNECTED)])
          in (unbind bid s, out)))"

fun on_message ::
  "string \<Rightarrow> string \<Rightarrow> string \<Rightarrow> message \<Rightarrow> server_state \<Rightarrow>
   js_error + server_state \<times> emitted" where
  "on_message uuid gen sid (JOIN_QUEUE uid uname app) s =
     Inr (join_queue uuid gen sid uid uname app s)"
| "on_message uuid gen sid (LEAVE_QUEUE uid) s = Inr (leave_queue uid s)"
| "on_message uuid gen sid GET_QUEUE s = Inr (s, [(To sid, QUEUE_UPDATE (matchmakingQueue s))])"
| "on_message uuid gen sid (CREATE_BATTLE bid uid uname app) s =
     Inr (create_battle sid bid uid uname app s)"
| "on_message uuid gen sid (JOIN_BATTLE bid uid uname app) s =
     Inr (join_battle sid bid uid uname app s)"
| "on_message uuid gen sid (SEND_BATTLE_MESSAGE bid uid m) s = send_battle_message sid bid uid m s"
| "on_message uuid gen sid (LEAVE_BATTLE bid uid) s = leave_battle bid uid s"
| "on_message uuid gen sid PING s = Inr (s, [(To sid, PONG)])"
| "on_message uuid gen sid (UNKNOWN t) s = Inr (s, [])"

subsection \<open>Disconnect\<close>

text \<open>One round of the \<open>forEach\<close> over \<open>Object.entries(battles)\<close>: the entries are
  those of the dictionary when the loop starts, the deletions act on the dictionary.\<close>

definition disconnect_entry ::
  "string \<Rightarrow> string \<times> nat \<Rightarrow> server_state \<times> emitted \<Rightarrow> server_state \<times> emitted" where
  "disconnect_entry sid e acc =
     (case e of (k, r) \<Rightarrow> case acc of (s, out) \<Rightarrow>
        let b = heap s ! r in
        if socketId (player1 b) = sid then
          (unbind k s,
           out @ (case player2 b of
                    None \<Rightarrow> []
                  | Some p2 \<Rightarrow> if socketId p2 = [] then []
                               else [(To (socketId p2), OPPONENT_DISCONNECTED)]))
        else if (case player2 b of None \<Rightarrow> False | Some p2 \<Rightarrow> socketId p2 = sid) then
          (unbind k s, out @ [(To (socketId (player1 b)), OPPONENT_DISCONNECTED)])
        else (s, out))"

definition on_disconnect :: "string \<Rightarrow> server_state \<Rightarrow> server_state \<times> emitted" where
  "on_disconnect sid s =
     (let (s1, out1) =
            (case find (\<lambda>p. socketId p = sid) (matchmakingQueue s) of
               None \<Rightarrow> (s, [])
             | Some queuedPlayer \<Rightarrow>
                 let s' = s\<lparr>matchmakingQueue :=
                              filter (\<lambda>p. socketId p \<noteq> sid) (matchmakingQueue s)\<rparr>
                 in (s', broadcastQueueUpdate s'))
      in fold (disconnect_entry sid) (battles s1) (s1, out1))"

subsection \<open>Inputs and runs\<close>

text \<open>
  What the server reacts to: a new connection, a message on a socket, the disconnect of
  a socket, and the two interval timers (the second only logs). Each input comes with
  the two strings that \<open>randomUUID()\<close> and \<open>generateBattleCode()\<close> would return while it
  is handled.
\<close>

datatype input =
    Connection string
  | Message string message
  | Disconnect string
  | MatchmakingTimer
  | LogTimer

fun step ::
  "string \<times> string \<Rightarrow> input \<Rightarrow> server_state \<Rightarrow> js_error + server_state \<times> emitted" where
  "step rnd (Connection sid) s = Inr (s, [(To sid, CONNECTED)])"
| "step rnd (Message sid m) s = on_message (fst rnd) (snd rnd) sid m s"
| "step rnd (Disconnect sid) s = Inr (on_disconnect sid s)"
| "step rnd MatchmakingTimer s = Inr (processMatchmaking (fst rnd) (snd rnd) s)"
| "step rnd LogTimer s = Inr (s, [])"

text \<open>The state after a list of inputs; the state at the throw when a handler throws.\<close>

fun run :: "((string \<times> string) \<times> input) list \<Rightarrow> server_state \<Rightarrow> server_state" where
  "run [] s = s"
| "run (i # is) s =
     (case step (fst i) (snd i) s of Inl e \<Rightarrow> s | Inr (s', out) \<Rightarrow> run is s')"

subsection \<open>Consistency of the dictionary\<close>

text \<open>
  The keys of \<open>battles\<close> are distinct, every key is bound to an object of the store,
  and that object's \<open>battleId\<close> is its key. Both writers of the dictionary establish
  this, and it holds in every state the server reaches.
\<close>

definition directory_ok :: "server_state \<Rightarrow> bool" where
  "directory_ok s \<longleftrightarrow>
     distinct (map fst (battles s)) \<and>
     list_all (\<lambda>(k, r). r < length (heap s) \<and> battleId (heap s ! r) = k) (battles s)"

text \<open>
  The ids for which \<open>battles[id]\<close> is the own key or nothing: those that name neither a
  member of \<open>Object.prototype\<close> nor a field of a battle.
\<close>

definition battle_fields :: "string list" where
  "battle_fields = [''battleId'', ''code'', ''player1'', ''player2'', ''started'']"

definition own_or_nothing :: "string \<Rightarrow> bool" where
  "own_or_nothing k \<longleftrightarrow> k \<notin> set (Object_prototype_members @ battle_fields)"

text \<open>The inputs that can bind the id \<open>k\<close>: a \<open>CREATE_BATTLE\<close> for it, and a pairing when
  \<open>randomUUID()\<close> returns it.\<close>

fun binds :: "string \<Rightarrow> (string \<times> string) \<times> input \<Rightarrow> bool" where
  "binds k (rnd, Message sid (CREATE_BATTLE bid uid uname app)) = (bid = k)"
| "binds k (rnd, Message sid (JOIN_QUEUE uid uname app)) = (fst rnd = k)"
| "binds k (rnd, MatchmakingTimer) = (fst rnd = k)"
| "binds k (rnd, i) = False"

text \<open>An object of the store that exists and has its \<open>started\<close> flag set.\<close>

definition started_at :: "server_state \<Rightarrow> nat \<Rightarrow> bool" where
  "started_at s r \<longleftrightarrow> r < length (heap s) \<and> started (heap s ! r)"

subsection \<open>Example runs\<close>

text \<open>u1 creates the battle ABC123 on socket s1.\<close>

definition ex_created :: server_state where
  "ex_created =
     run [((''id-1'', ''C0DE01''), Message ''s1'' (CREATE_BATTLE ''ABC123'' ''u1'' (Some ''Ann'') None))]
       initial"

text \<open>Then u2 joins it on socket s2.\<close>

definition ex_started :: server_state where
  "ex_started =
     run [((''id-1'', ''C0DE01''), Message ''s1'' (CREATE_BATTLE ''ABC123'' ''u1'' (Some ''Ann'') None)),
          ((''id-2'', ''C0DE02''), Message ''s2'' (JOIN_BATTLE ''ABC123'' ''u2'' (Some ''Bob'') None))]
       initial"

text \<open>Then u1 leaves the battle, or else the socket of u2 disconnects.\<close>

definition ex_left :: server_state where
  "ex_left = run [((''id-3'', ''C0DE03''), Message ''s1'' (LEAVE_BATTLE ''ABC123'' ''u1''))] ex_started"

definition ex_dropped :: server_state where
  "ex_dropped = run [((''id-3'', ''C0DE03''), Disconnect ''s2'')] ex_started"

text \<open>Or else u3 sends a \<open>CREATE_BATTLE\<close> with the id of the running battle.\<close>

definition ex_recreated :: server_state where
  "ex_recreated =
     run [((''id-3'', ''C0DE03''), Message ''s3'' (CREATE_BATTLE ''ABC123'' ''u3'' (Some ''Cid'') None))]
       ex_started"

text \<open>A queue of three waiting players, as \<open>processMatchmaking\<close> may be handed.\<close>

definition ex_three_waiting :: server_state where
  "ex_three_waiting =
     initial\<lparr>matchmakingQueue :=
       [\<lparr>userId = ''u1'', username = ''Ann'', socketId = ''s1'', appearance = ''{}''\<rparr>,
        \<lparr>userId = ''u2'', username = ''Bob'', socketId = ''s2'', appearance = ''{}''\<rparr>,
        \<lparr>userId = ''u3'', username = ''Cid'', socketId = ''s3'', appearance = ''{}''\<rparr>]\<rparr>"

text \<open>Then u4 joins the battle that u3 created.\<close>

definition ex_rejoined :: server_state where
  "ex_rejoined =
     run [((''id-4'', ''C0DE04''), Message ''s4'' (JOIN_BATTLE ''ABC123'' ''u4'' (Some ''Dan'') None))]
       ex_recreated"

text \<open>After u1 has left, u3 creates a battle with the id ABC123 again.\<close>

definition ex_left_recreated :: server_state where
  "ex_left_recreated =
     run [((''id-4'', ''C0DE04''), Message ''s3'' (CREATE_BATTLE ''ABC123'' ''u3'' (Some ''Cid'') None))]
       ex_left"

text \<open>Inputs of other players, none of which binds the id ABC123.\<close>

definition ex_later :: "((string \<times> string) \<times> input) list" where
  "ex_later =
     [((''id-5'', ''C0DE05''), Connection ''s5''),
      ((''id-6'', ''C0DE06''), Message ''s5'' (JOIN_QUEUE ''u5'' (Some ''Eve'') None)),
      ((''id-7'', ''C0DE07''), Message ''s6'' (CREATE_BATTLE ''XYZ789'' ''u6'' (Some ''Flo'') None)),
      ((''id-8'', ''C0DE08''), Message ''s7'' (JOIN_QUEUE ''u7'' (Some ''Gus'') None)),
      ((''id-9'', ''C0DE09''), MatchmakingTimer)]"

section \<open>Properties\<close>

subsection \<open>The dictionary stays consistent\<close>

lemma find_by_id:
  assumes "distinct (map fst d)"
    and "list_all (\<lambda>(k, r). battleId (h ! r) = k) d"
  shows "map_option snd (find (\<lambda>(k, r). battleId (h ! r) = bid \<and> \<not> started (h ! r)) d)
         = (case map_of d bid of None \<Rightarrow> None
            | Some r \<Rightarrow> if started (h ! r) then None else Some r)"
  using assms
proof (induction d)
  case Nil
  then show ?case by simp
next
  case (Cons e d)
  obtain k r where e: "e = (k, r)" by (cases e)
  show ?case
  proof (cases "k = bid")
    case True
    with Cons.prems e have "map_of d bid = None"
      by (simp add: map_of_eq_None_iff)
    moreover have "\<forall>e' \<in> set d. battleId (h ! snd e') \<noteq> bid"
    proof
      fix e' assume in_d: "e' \<in> set d"
      with Cons.prems have "battleId (h ! snd e') = fst e'"
        by (auto simp: list_all_iff)
      moreover have "bid \<notin> fst ` set d" using Cons.prems e True by simp
      with in_d have "fst e' \<noteq> bid" by (metis imageI)
      ultimately show "battleId (h ! snd e') \<noteq> bid" by simp
    qed
    then have "find (\<lambda>(k, r). battleId (h ! r) = bid \<and> \<not> started (h ! r)) d = None"
      by (auto simp: find_None_iff)
    ultimately show ?thesis using True e Cons.prems by simp
  next
    case False
    with Cons e show ?thesis by simp
  qed
qed

lemma battleToJoin_lookup:
  "directory_ok s \<Longrightarrow>
   battleToJoin bid s = (case map_of (battles s) bid of None \<Rightarrow> None
                         | Some r \<Rightarrow> if started (heap s ! r) then None else Some r)"
  unfolding battleToJoin_def directory_ok_def
  by (rule find_by_id) (auto simp: list_all_iff)

lemma directory_ok_lookup:
  "directory_ok s \<Longrightarrow> map_of (battles s) k = Some r \<Longrightarrow>
   r < length (heap s) \<and> battleId (heap s ! r) = k"
  by (auto simp: directory_ok_def list_all_iff dest!: map_of_SomeD)

lemma set_update_subset: "set (AList.update k v d) \<subseteq> insert (k, v) (set d)"
  by (induction d) auto

lemma directory_ok_bind_new:
  assumes "directory_ok s" and "battleId b = k"
  shows "directory_ok (bind_new k b s)"
proof -
  have "\<And>k' r. (k', r) \<in> set (AList.update k (length (heap s)) (battles s)) \<Longrightarrow>
          r < Suc (length (heap s)) \<and> battleId ((heap s @ [b]) ! r) = k'"
  proof -
    fix k' r assume "(k', r) \<in> set (AList.update k (length (heap s)) (battles s))"
    then have "(k', r) = (k, length (heap s)) \<or> (k', r) \<in> set (battles s)"
      using set_update_subset by fastforce
    then show "r < Suc (length (heap s)) \<and> battleId ((heap s @ [b]) ! r) = k'"
      using assms by (auto simp: directory_ok_def list_all_iff nth_append)
  qed
  moreover have "\<And>k' r. (k', r) \<in> set (battles s) \<Longrightarrow>
          r < Suc (length (heap s)) \<and> battleId ((heap s @ [b]) ! r) = k'"
    using assms(1) by (auto simp: directory_ok_def list_all_iff nth_append)
  ultimately show ?thesis
    using assms by (auto simp: directory_ok_def bind_new_def list_all_iff distinct_update)
qed

lemma set_delete_subset: "set (AList.delete k d) \<subseteq> set d"
  by (auto simp: AList.delete_eq)

lemma directory_ok_unbind: "directory_ok s \<Longrightarrow> directory_ok (unbind k s)"
  using set_delete_subset [of k "battles s"]
  by (auto simp: directory_ok_def unbind_def list_all_iff distinct_delete)

lemma directory_ok_queue [simp]:
  "directory_ok (s\<lparr>matchmakingQueue := q\<rparr>) = directory_ok s"
  by (simp add: directory_ok_def)

lemma battleId_list_update:
  "battleId b = battleId (h ! r) \<Longrightarrow> battleId (h[r := b] ! j) = battleId (h ! j)"
  by (cases "r < length h") (auto simp: nth_list_update list_update_beyond)

lemma directory_ok_heap_update:
  assumes "directory_ok s" and "battleId b = battleId (heap s ! r)"
  shows "directory_ok (s\<lparr>heap := (heap s)[r := b]\<rparr>)"
  using assms by (auto simp: directory_ok_def list_all_iff battleId_list_update)

lemma battleId_update_wins [simp]: "battleId (update_wins uid w b) = battleId b"
  by (simp add: update_wins_def split: option.splits)

lemma directory_ok_proto [simp]:
  "directory_ok (s\<lparr>proto := p\<rparr>) = directory_ok s"
  by (simp add: directory_ok_def)

lemma directory_ok_processMatchmaking:
  "directory_ok s \<Longrightarrow> directory_ok (fst (processMatchmaking uuid gen s))"
  by (auto simp: processMatchmaking_def shift_def Let_def directory_ok_bind_new
           split: list.splits)

lemma directory_ok_join_queue:
  assumes "directory_ok s"
  shows "directory_ok (fst (join_queue uuid gen sid uid uname app s))"
proof -
  from assms have "directory_ok (fst (processMatchmaking uuid gen
      (s\<lparr>matchmakingQueue := filter (\<lambda>p. userId p \<noteq> uid) (matchmakingQueue s) @
         [\<lparr>userId = uid, username = or_default uname ''Anonymous'', socketId = sid,
           appearance = or_default app ''{}''\<rparr>]\<rparr>)))"
    by (intro directory_ok_processMatchmaking) simp
  then show ?thesis
    by (simp add: join_queue_def Let_def split_beta)
qed

lemma directory_ok_join_battle:
  "directory_ok s \<Longrightarrow> directory_ok (fst (join_battle sid bid uid uname app s))"
  by (auto simp: join_battle_def Let_def intro!: directory_ok_heap_update split: option.splits)

lemma directory_ok_send_battle_message:
  "send_battle_message sid bid uid m s = Inr (s', out) \<Longrightarrow> directory_ok s \<Longrightarrow> directory_ok s'"
  by (auto simp: send_battle_message_def Let_def intro!: directory_ok_heap_update
           split: property.splits prod.splits if_splits)

lemma directory_ok_leave_battle:
  "leave_battle bid uid s = Inr (s', out) \<Longrightarrow> directory_ok s \<Longrightarrow> directory_ok s'"
  by (auto simp: leave_battle_def Let_def directory_ok_unbind split: property.splits)

lemma directory_ok_on_message:
  assumes "on_message uuid gen sid m s = Inr (s', out)" and "directory_ok s"
  shows "directory_ok s'"
proof (cases m)
  case (JOIN_QUEUE uid uname app)
  with assms directory_ok_join_queue [OF assms(2), of uuid gen sid uid uname app]
  show ?thesis by auto
next
  case (JOIN_BATTLE bid uid uname app)
  with assms directory_ok_join_battle [OF assms(2), of sid bid uid uname app]
  show ?thesis by auto
next
  case (SEND_BATTLE_MESSAGE bid uid msg)
  with assms show ?thesis by (auto dest: directory_ok_send_battle_message)
next
  case (LEAVE_BATTLE bid uid)
  with assms show ?thesis by (auto dest: directory_ok_leave_battle)
qed (use assms in \<open>auto simp: leave_queue_def create_battle_def Let_def directory_ok_bind_new\<close>)

lemma disconnect_entry_ok:
  "directory_ok (fst acc) \<Longrightarrow> directory_ok (fst (disconnect_entry sid e acc))"
  by (cases e; cases acc) (auto simp: disconnect_entry_def Let_def directory_ok_unbind)

lemma fold_disconnect_ok:
  "directory_ok (fst acc) \<Longrightarrow> directory_ok (fst (fold (disconnect_entry sid) es acc))"
  by (induction es arbitrary: acc) (auto simp: disconnect_entry_ok)

lemma directory_ok_on_disconnect:
  "directory_ok s \<Longrightarrow> directory_ok (fst (on_disconnect sid s))"
  by (auto simp: on_disconnect_def Let_def intro!: fold_disconnect_ok split: option.splits)

lemma directory_ok_step:
  assumes "step rnd i s = Inr (s', out)" and "directory_ok s"
  shows "directory_ok s'"
proof (cases i)
  case (Message sid m)
  with assms show ?thesis by (auto dest: directory_ok_on_message)
next
  case (Disconnect sid)
  with assms directory_ok_on_disconnect [OF assms(2), of sid] show ?thesis by auto
next
  case MatchmakingTimer
  with assms directory_ok_processMatchmaking [OF assms(2), of "fst rnd" "snd rnd"]
  show ?thesis by auto
qed (use assms in auto)

text \<open>A property that every returning handler keeps holds after every run.\<close>

lemma run_induct:
  assumes "P s"
    and "\<And>rnd i s s' out. P s \<Longrightarrow> step rnd i s = Inr (s', out) \<Longrightarrow> P s'"
  shows "P (run is s)"
  using assms(1)
proof (induction "is" arbitrary: s)
  case Nil
  then show ?case by simp
next
  case (Cons i "is")
  show ?case
  proof (cases "step (fst i) (snd i) s")
    case (Inl e)
    with Cons.prems show ?thesis by simp
  next
    case (Inr p)
    obtain s' out where p: "p = (s', out)" by (cases p)
    with Inr Cons.prems have "P s'" by (auto intro: assms(2))
    then have "P (run is s')" by (rule Cons.IH)
    with Inr p show ?thesis by simp
  qed
qed

lemma directory_ok_run: "directory_ok s \<Longrightarrow> directory_ok (run is s)"
  by (rule run_induct) (auto intro: directory_ok_step)

lemma directory_ok_initial: "directory_ok initial"
  by (simp add: directory_ok_def initial_def)

lemma lookup_own: "map_of (battles s) k = Some r \<Longrightarrow> lookup k s = Battle r"
  by (simp add: lookup_def)

lemma lookup_nothing:
  "own_or_nothing k \<Longrightarrow> map_of (battles s) k = None \<Longrightarrow> lookup k s = Falsy"
  by (auto simp: lookup_def inherited_def own_or_nothing_def Object_prototype_members_def
                 battle_fields_def Let_def split: option.splits)

lemma lookup_bind_new: "lookup k (bind_new k b s) = Battle (length (heap s))"
  by (auto simp: lookup_def bind_new_def inherited_def update_conv' split: option.splits)

subsection \<open>Win counters\<close>

lemma started_update_wins [simp]: "started (update_wins uid w b) = started b"
  by (simp add: update_wins_def split: option.splits)

lemma player1_update_wins:
  "player1 (update_wins uid w b) =
     (if w = JNumber 1 \<and> uid = userId (player1 b)
      then (player1 b)\<lparr>wins := wins (player1 b) + 1\<rparr> else player1 b)"
  by (simp add: update_wins_def split: option.splits)

lemma player2_update_wins:
  "player2 (update_wins uid w b) =
     (if w = JNumber 2 \<and> \<not> (w = JNumber 1 \<and> uid = userId (player1 b))
      then map_option (\<lambda>p. if uid = userId p then p\<lparr>wins := wins p + 1\<rparr> else p) (player2 b)
      else player2 b)"
  by (simp add: update_wins_def split: option.splits)

lemma heap_send_battle_message:
  assumes "map_of (battles s) bid = Some r" and "r < length (heap s)"
  shows "\<exists>s' out. send_battle_message sid bid uid m s = Inr (s', out) \<and>
           heap s' ! r =
             (if gameOver m \<and> truthy (winner_of m)
              then update_wins uid (winner_of m) (heap s ! r) else heap s ! r)"
  using assms by (simp add: send_battle_message_def lookup_own Let_def split_beta)

text \<open>
  C1. For a session in the dictionary and a \<open>SEND_BATTLE_MESSAGE\<close> whose payload is flagged
  game-over and names slot 1 or slot 2 as the winner: the handler returns, and the
  counter of the named slot goes up by one exactly when the reporting \<open>userId\<close> is that
  slot's own \<open>userId\<close>, and stays as it was otherwise; the counter of the other slot
  never changes. So a report that claims a win for a slot under another identity changes
  neither counter.
\<close>

theorem win_credit:
  assumes "directory_ok s" and "map_of (battles s) bid = Some r"
    and "gameOver m" and "winner_of m = JNumber 1 \<or> winner_of m = JNumber 2"
  shows "\<exists>s' out. step rnd (Message sid (SEND_BATTLE_MESSAGE bid uid m)) s = Inr (s', out) \<and>
         (let b = heap s ! r; b' = heap s' ! r
          in if winner_of m = JNumber 1
             then wins (player1 b') = wins (player1 b) + (if uid = userId (player1 b) then 1 else 0)
                  \<and> map_option wins (player2 b') = map_option wins (player2 b)
             else wins (player1 b') = wins (player1 b)
                  \<and> map_option wins (player2 b') =
                      map_option (\<lambda>p. wins p + (if uid = userId p then 1 else 0)) (player2 b))"
proof -
  from assms(1,2) have r: "r < length (heap s)"
    by (simp add: directory_ok_lookup)
  from assms(4) have t: "truthy (winner_of m)" by auto
  from heap_send_battle_message [OF assms(2) r, of sid uid m] assms(3) t
  obtain s' out where s': "send_battle_message sid bid uid m s = Inr (s', out)"
    "heap s' ! r = update_wins uid (winner_of m) (heap s ! r)" by auto
  have "let b = heap s ! r; b' = heap s' ! r
          in if winner_of m = JNumber 1
             then wins (player1 b') = wins (player1 b) + (if uid = userId (player1 b) then 1 else 0)
                  \<and> map_option wins (player2 b') = map_option wins (player2 b)
             else wins (player1 b') = wins (player1 b)
                  \<and> map_option wins (player2 b') =
                      map_option (\<lambda>p. wins p + (if uid = userId p then 1 else 0)) (player2 b)"
    using assms(4) s'(2)
    by (auto simp: Let_def player1_update_wins player2_update_wins option.map_comp comp_def
             intro!: option.map_cong)
  with s'(1) show ?thesis by auto
qed

theorem win_credit_witness:
  "directory_ok ex_started \<and> map_of (battles ex_started) ''ABC123'' = Some 0
   \<and> wins (player1 (heap ex_started ! 0)) = 0
   \<and> map_option wins (player2 (heap ex_started ! 0)) = Some 0
   \<and> (\<exists>s' out. step (''id-3'', ''C0DE03'') (Message ''s1''
         (SEND_BATTLE_MESSAGE ''ABC123'' ''u1''
            \<lparr>gameOver = True, syncData = Some \<lparr>winner = JNumber 1\<rparr>, content = ''end''\<rparr>))
         ex_started = Inr (s', out)
       \<and> wins (player1 (heap s' ! 0)) = 1
       \<and> map_option wins (player2 (heap s' ! 0)) = Some 0)
   \<and> (\<exists>s' out. step (''id-3'', ''C0DE03'') (Message ''s2''
         (SEND_BATTLE_MESSAGE ''ABC123'' ''u2''
            \<lparr>gameOver = True, syncData = Some \<lparr>winner = JNumber 1\<rparr>, content = ''end''\<rparr>))
         ex_started = Inr (s', out)
       \<and> wins (player1 (heap s' ! 0)) = 0
       \<and> map_option wins (player2 (heap s' ! 0)) = Some 0)"
proof -
  let ?m = "\<lparr>gameOver = True, syncData = Some \<lparr>winner = JNumber 1\<rparr>, content = ''end''\<rparr>"
  have h1: "directory_ok ex_started" by code_simp
  have h2: "map_of (battles ex_started) ''ABC123'' = Some 0" by code_simp
  have h3: "gameOver ?m" by simp
  have w: "winner_of ?m = JNumber 1" by (simp add: winner_of_def)
  then have h4: "winner_of ?m = JNumber 1 \<or> winner_of ?m = JNumber 2" by simp
  have v: "wins (player1 (heap ex_started ! 0)) = 0"
          "map_option wins (player2 (heap ex_started ! 0)) = Some 0"
          "userId (player1 (heap ex_started ! 0)) = ''u1''"
    by code_simp+
  from win_credit [OF h1 h2 h3 h4, of "(''id-3'', ''C0DE03'')" "''s1''" "''u1''"] w v
  have A: "\<exists>s' out. step (''id-3'', ''C0DE03'') (Message ''s1''
         (SEND_BATTLE_MESSAGE ''ABC123'' ''u1'' ?m)) ex_started = Inr (s', out)
       \<and> wins (player1 (heap s' ! 0)) = 1
       \<and> map_option wins (player2 (heap s' ! 0)) = Some 0"
    by (simp add: Let_def)
  from win_credit [OF h1 h2 h3 h4, of "(''id-3'', ''C0DE03'')" "''s2''" "''u2''"] w v
  have B: "\<exists>s' out. step (''id-3'', ''C0DE03'') (Message ''s2''
         (SEND_BATTLE_MESSAGE ''ABC123'' ''u2'' ?m)) ex_started = Inr (s', out)
       \<and> wins (player1 (heap s' ! 0)) = 0
       \<and> map_option wins (player2 (heap s' ! 0)) = Some 0"
    by (simp add: Let_def)
  from h1 h2 v(1,2) A B show ?thesis by blast
qed

subsection \<open>The started flag\<close>

lemma started_at_queue [simp]: "started_at (s\<lparr>matchmakingQueue := q\<rparr>) r = started_at s r"
  by (simp add: started_at_def)

lemma started_at_unbind [simp]: "started_at (unbind k s) r = started_at s r"
  by (simp add: started_at_def unbind_def)

lemma started_at_bind_new: "started_at s r \<Longrightarrow> started_at (bind_new k b s) r"
  by (simp add: started_at_def bind_new_def nth_append)

lemma started_at_heap_update:
  "started_at s r \<Longrightarrow> (started (heap s ! r') \<Longrightarrow> started b) \<Longrightarrow>
   started_at (s\<lparr>heap := (heap s)[r' := b]\<rparr>) r"
  by (cases "r' = r") (auto simp: started_at_def)

lemma started_at_processMatchmaking:
  "started_at s r \<Longrightarrow> started_at (fst (processMatchmaking uuid gen s)) r"
  by (auto simp: processMatchmaking_def shift_def Let_def started_at_bind_new
           split: list.splits)

lemma started_at_on_message:
  assumes "on_message uuid gen sid m s = Inr (s', out)" and "started_at s r"
  shows "started_at s' r"
proof (cases m)
  case (JOIN_QUEUE uid uname app)
  with assms show ?thesis
    by (auto simp: join_queue_def Let_def split_beta started_at_processMatchmaking)
next
  case (JOIN_BATTLE bid uid uname app)
  with assms show ?thesis
    by (auto simp: join_battle_def Let_def intro!: started_at_heap_update split: option.splits)
next
  case (SEND_BATTLE_MESSAGE bid uid msg)
  with assms show ?thesis
    by (auto simp: send_battle_message_def Let_def intro!: started_at_heap_update
             split: property.splits prod.splits if_splits)
qed (use assms in \<open>auto simp: leave_queue_def create_battle_def leave_battle_def Let_def
          started_at_bind_new split: property.splits\<close>)

lemma started_at_disconnect_entry:
  "started_at (fst acc) r \<Longrightarrow> started_at (fst (disconnect_entry sid e acc)) r"
  by (cases e; cases acc) (auto simp: disconnect_entry_def Let_def)

lemma started_at_fold_disconnect:
  "started_at (fst acc) r \<Longrightarrow> started_at (fst (fold (disconnect_entry sid) es acc)) r"
  by (induction es arbitrary: acc) (auto simp: started_at_disconnect_entry)

lemma started_at_on_disconnect:
  "started_at s r \<Longrightarrow> started_at (fst (on_disconnect sid s)) r"
  by (auto simp: on_disconnect_def Let_def intro!: started_at_fold_disconnect split: option.splits)

lemma started_at_step:
  assumes "step rnd i s = Inr (s', out)" and "started_at s r"
  shows "started_at s' r"
proof (cases i)
  case (Message sid m)
  with assms show ?thesis by (auto dest: started_at_on_message)
next
  case (Disconnect sid)
  with assms started_at_on_disconnect [OF assms(2), of sid] show ?thesis by auto
next
  case MatchmakingTimer
  with assms started_at_processMatchmaking [OF assms(2), of "fst rnd" "snd rnd"]
  show ?thesis by auto
qed (use assms in auto)

lemma started_at_run: "started_at s r \<Longrightarrow> started_at (run is s) r"
  by (rule run_induct) (auto intro: started_at_step)

lemma join_battle_fails:
  assumes "directory_ok s"
    and "map_of (battles s) bid = None \<or> (\<exists>r. map_of (battles s) bid = Some r \<and> started (heap s ! r))"
  shows "join_battle sid bid uid uname app s =
           (s, [(To sid, ERROR ''Invalid battle code or battle already started'')])"
  using assms by (auto simp: join_battle_def battleToJoin_lookup)

text \<open>
  The \<open>started\<close> flag of a battle object is only ever written to set it: for a session
  of the dictionary that is started, the flag of its object is set after every sequence
  of inputs. As long as the dictionary binds the id to this object, a \<open>JOIN_BATTLE\<close> for
  the id is answered with \<open>Invalid battle code or battle already started\<close> and changes
  nothing.
\<close>

lemma started_stays_set:
  assumes "directory_ok s" and "map_of (battles s) bid = Some r" and "started (heap s ! r)"
  shows "started (heap (run is s) ! r)
         \<and> (map_of (battles (run is s)) bid = Some r \<longrightarrow>
              step rnd (Message sid (JOIN_BATTLE bid uid uname app)) (run is s)
                = Inr (run is s, [(To sid, ERROR ''Invalid battle code or battle already started'')]))"
proof -
  from assms(1,2) have "r < length (heap s)" by (simp add: directory_ok_lookup)
  with assms(3) have "started_at s r" by (simp add: started_at_def)
  then have "started_at (run is s) r" by (rule started_at_run)
  then have 1: "started (heap (run is s) ! r)" by (simp add: started_at_def)
  from assms(1) have "directory_ok (run is s)" by (rule directory_ok_run)
  with 1 show ?thesis by (auto simp: join_battle_fails)
qed

text \<open>
  C2. The claim has every \<open>JOIN_BATTLE\<close> for the code of a started session fail and
  leave the session as it was. In \<open>ex_started\<close> the id ABC123 is bound to the started
  battle of u1 and u2. A \<open>CREATE_BATTLE\<close> for ABC123 from u3 binds the id to a new
  session that is not started, and the \<open>JOIN_BATTLE\<close> for ABC123 that u4 sends next is
  accepted: u4 becomes player2 of that session and both get \<open>MATCH_FOUND\<close>. The object
  of the first battle is unchanged and keeps its flag, but no id leads to it any more.
\<close>

theorem join_succeeds_after_create:
  "map_of (battles ex_started) ''ABC123'' = Some 0
   \<and> map_option userId (player2 (heap ex_started ! 0)) = Some ''u2''
   \<and> started (heap ex_started ! 0)
   \<and> step (''id-3'', ''C0DE03'') (Message ''s3'' (CREATE_BATTLE ''ABC123'' ''u3'' (Some ''Cid'') None))
        ex_started
       = Inr (ex_recreated, [(To ''s3'', BATTLE_CODE_GENERATED ''ABC123'')])
   \<and> map_of (battles ex_recreated) ''ABC123'' = Some 1
   \<and> \<not> started (heap ex_recreated ! 1)
   \<and> step (''id-4'', ''C0DE04'') (Message ''s4'' (JOIN_BATTLE ''ABC123'' ''u4'' (Some ''Dan'') None))
        ex_recreated
       = Inr (ex_rejoined, [(To ''s3'', MATCH_FOUND ''ABC123'' ''Dan'' ''{}''),
                            (To ''s4'', MATCH_FOUND ''ABC123'' ''Cid'' ''{}'')])
   \<and> map_option userId (player2 (heap ex_rejoined ! 1)) = Some ''u4''
   \<and> heap ex_rejoined ! 0 = heap ex_started ! 0"
  by code_simp

subsection \<open>Joining a battle\<close>

text \<open>
  C6, as the source has it. \<open>JOIN_BATTLE\<close> looks for an unstarted session under the given
  id. When there is none, whether because the id is unknown or because its session has
  started, the sender gets the one error \<open>Invalid battle code or battle already started\<close>
  and nothing changes. Otherwise the session gets the joiner as player2 with no wins,
  its \<open>started\<close> flag is set, and \<open>MATCH_FOUND\<close> goes to player1's socket with the
  joiner's name and appearance and to the joiner's socket with player1's.
\<close>

theorem join_battle_outcomes:
  assumes "directory_ok s"
  shows "step rnd (Message sid (JOIN_BATTLE bid uid uname app)) s =
           Inr (case map_of (battles s) bid of
              None \<Rightarrow> (s, [(To sid, ERROR ''Invalid battle code or battle already started'')])
            | Some r \<Rightarrow>
                if started (heap s ! r)
                then (s, [(To sid, ERROR ''Invalid battle code or battle already started'')])
                else
                  let p2 = \<lparr>userId = uid, username = or_default uname ''Anonymous'',
                            socketId = sid, appearance = or_default app ''{}'', wins = 0\<rparr>;
                      p1 = player1 (heap s ! r)
                  in (s\<lparr>heap := (heap s)[r := (heap s ! r)\<lparr>player2 := Some p2, started := True\<rparr>]\<rparr>,
                      [(To (socketId p1), MATCH_FOUND bid (username p2) (appearance p2)),
                       (To sid, MATCH_FOUND bid (username p1) (appearance p1))]))"
proof (cases "map_of (battles s) bid")
  case None
  with assms show ?thesis by (simp add: join_battle_fails)
next
  case (Some r)
  show ?thesis
  proof (cases "started (heap s ! r)")
    case True
    with assms Some show ?thesis by (simp add: join_battle_fails)
  next
    case False
    from assms Some have "battleId (heap s ! r) = bid"
      by (simp add: directory_ok_lookup)
    with assms Some False show ?thesis
      by (simp add: join_battle_def battleToJoin_lookup Let_def)
  qed
qed

theorem join_battle_outcomes_witness:
  "directory_ok ex_created
   \<and> step (''id-2'', ''C0DE02'') (Message ''s2'' (JOIN_BATTLE ''ABC123'' ''u2'' (Some ''Bob'') None)) ex_created
     = Inr (ex_started, [(To ''s1'', MATCH_FOUND ''ABC123'' ''Bob'' ''{}''),
                         (To ''s2'', MATCH_FOUND ''ABC123'' ''Ann'' ''{}'')])"
proof -
  have h: "directory_ok ex_created" by code_simp
  have e: "map_of (battles ex_created) ''ABC123'' = Some 0" by code_simp
  have f: "\<not> started (heap ex_created ! 0)" by code_simp
  have g: "ex_created\<lparr>heap := (heap ex_created)[0 := (heap ex_created ! 0)
             \<lparr>player2 := Some \<lparr>userId = ''u2'', username = or_default (Some ''Bob'') ''Anonymous'',
                 socketId = ''s2'', appearance = or_default None ''{}'', wins = 0\<rparr>,
              started := True\<rparr>]\<rparr> = ex_started" by code_simp
  have p: "socketId (player1 (heap ex_created ! 0)) = ''s1''"
          "username (player1 (heap ex_created ! 0)) = ''Ann''"
          "appearance (player1 (heap ex_created ! 0)) = ''{}''"
          "or_default (Some ''Bob'') ''Anonymous'' = ''Bob''"
          "or_default None ''{}'' = ''{}''" by code_simp+
  from join_battle_outcomes [OF h, of "(''id-2'', ''C0DE02'')" "''s2''" "''ABC123''" "''u2''" "Some ''Bob''" None]
  show ?thesis using h e f g p by (simp add: Let_def)
qed

text \<open>
  C6 as stated asks for two distinct errors. In the state \<open>ex_started\<close> the id NOSUCH is
  unknown and the id ABC123 has a started session, and the two joins are answered with
  the same event.
\<close>

theorem join_battle_errors_coincide:
  "map_of (battles ex_started) ''NOSUCH'' = None
   \<and> map_of (battles ex_started) ''ABC123'' = Some 0 \<and> started (heap ex_started ! 0)
   \<and> step (''id-3'', ''C0DE03'') (Message ''s3'' (JOIN_BATTLE ''NOSUCH'' ''u3'' None None)) ex_started
       = Inr (ex_started, [(To ''s3'', ERROR ''Invalid battle code or battle already started'')])
   \<and> step (''id-3'', ''C0DE03'') (Message ''s3'' (JOIN_BATTLE ''ABC123'' ''u3'' None None)) ex_started
       = Inr (ex_started, [(To ''s3'', ERROR ''Invalid battle code or battle already started'')])"
  by code_simp

subsection \<open>Leaving a battle\<close>

lemma heap_disconnect_entry [simp]:
  "heap (fst (disconnect_entry sid e acc)) = heap (fst acc)"
  by (cases e; cases acc) (simp add: disconnect_entry_def Let_def unbind_def)

lemma unbound_disconnect_entry:
  "map_of (battles (fst acc)) k = None \<Longrightarrow>
   map_of (battles (fst (disconnect_entry sid e acc))) k = None"
  by (cases e; cases acc) (auto simp: disconnect_entry_def Let_def unbind_def delete_conv')

lemma unbound_fold_disconnect:
  "map_of (battles (fst acc)) k = None \<Longrightarrow>
   map_of (battles (fst (fold (disconnect_entry sid) es acc))) k = None"
  by (induction es arbitrary: acc) (simp_all add: unbound_disconnect_entry)

lemma disconnect_entry_unbinds:
  assumes "socketId (player1 (heap (fst acc) ! r)) = sid
           \<or> map_option socketId (player2 (heap (fst acc) ! r)) = Some sid"
  shows "map_of (battles (fst (disconnect_entry sid (k, r) acc))) k = None"
  using assms
  by (cases acc) (auto simp: disconnect_entry_def Let_def unbind_def delete_conv')

lemma fold_disconnect_unbinds:
  assumes "(k, r) \<in> set es"
    and "socketId (player1 (heap (fst acc) ! r)) = sid
         \<or> map_option socketId (player2 (heap (fst acc) ! r)) = Some sid"
  shows "map_of (battles (fst (fold (disconnect_entry sid) es acc))) k = None"
  using assms
proof (induction es arbitrary: acc)
  case Nil
  then show ?case by simp
next
  case (Cons e es)
  show ?case
  proof (cases "e = (k, r)")
    case True
    with Cons.prems(2) show ?thesis
      by (simp add: unbound_fold_disconnect disconnect_entry_unbinds)
  next
    case False
    with Cons.prems have "(k, r) \<in> set es" by simp
    moreover from Cons.prems(2)
    have "socketId (player1 (heap (fst (disconnect_entry sid e acc)) ! r)) = sid
          \<or> map_option socketId (player2 (heap (fst (disconnect_entry sid e acc)) ! r)) = Some sid"
      by simp
    ultimately show ?thesis using Cons.IH by simp
  qed
qed

lemma on_disconnect_unbinds:
  assumes "map_of (battles s) k = Some r"
    and "socketId (player1 (heap s ! r)) = sid
         \<or> map_option socketId (player2 (heap s ! r)) = Some sid"
  shows "map_of (battles (fst (on_disconnect sid s))) k = None"
proof -
  from assms(1) have "(k, r) \<in> set (battles s)" by (rule map_of_SomeD)
  with assms(2) show ?thesis
    by (auto simp: on_disconnect_def Let_def intro!: fold_disconnect_unbinds split: option.splits)
qed

lemma unbound_on_disconnect:
  "map_of (battles s) k = None \<Longrightarrow> map_of (battles (fst (on_disconnect sid s))) k = None"
  by (auto simp: on_disconnect_def Let_def intro!: unbound_fold_disconnect split: option.splits)

lemma leave_battle_own:
  "map_of (battles s) bid = Some r \<Longrightarrow>
   \<exists>out. leave_battle bid uid s = Inr (unbind bid s, out)"
  by (simp add: leave_battle_def lookup_own Let_def)

lemma unbound_unbind: "map_of (battles (unbind k s)) k = None"
  by (simp add: unbind_def delete_conv')

lemma unbound_bind_new:
  "k \<noteq> k' \<Longrightarrow> map_of (battles s) k = None \<Longrightarrow> map_of (battles (bind_new k' b s)) k = None"
  by (simp add: bind_new_def update_conv')

lemma unbound_processMatchmaking:
  "uuid \<noteq> k \<Longrightarrow> map_of (battles s) k = None \<Longrightarrow>
   map_of (battles (fst (processMatchmaking uuid gen s))) k = None"
  by (auto simp: processMatchmaking_def shift_def Let_def unbound_bind_new split: list.splits)

lemma unbound_step:
  assumes "step rnd i s = Inr (s', out)" and "\<not> binds k (rnd, i)"
    and "map_of (battles s) k = None"
  shows "map_of (battles s') k = None"
proof (cases i)
  case (Message sid m)
  show ?thesis
  proof (cases m)
    case (JOIN_QUEUE uid uname app)
    with assms Message show ?thesis
      by (auto simp: join_queue_def Let_def split_beta intro!: unbound_processMatchmaking)
  next
    case (CREATE_BATTLE bid uid uname app)
    with assms Message show ?thesis
      by (auto simp: create_battle_def Let_def unbound_bind_new)
  next
    case (JOIN_BATTLE bid uid uname app)
    with assms Message show ?thesis
      by (auto simp: join_battle_def Let_def split: option.splits)
  next
    case (SEND_BATTLE_MESSAGE bid uid msg)
    with assms Message show ?thesis
      by (auto simp: send_battle_message_def Let_def split_beta split: property.splits)
  next
    case (LEAVE_BATTLE bid uid)
    with assms Message show ?thesis
      by (auto simp: leave_battle_def Let_def unbind_def delete_conv' split: property.splits)
  qed (use assms Message in \<open>auto simp: leave_queue_def Let_def\<close>)
next
  case (Disconnect sid)
  with assms unbound_on_disconnect [OF assms(3), of sid] show ?thesis by auto
next
  case MatchmakingTimer
  with assms unbound_processMatchmaking [of "fst rnd" k s "snd rnd"] show ?thesis by auto
qed (use assms in auto)

lemma unbound_run:
  "list_all (\<lambda>j. \<not> binds k j) is \<Longrightarrow> map_of (battles s) k = None \<Longrightarrow>
   map_of (battles (run is s)) k = None"
proof (induction "is" arbitrary: s)
  case Nil
  then show ?case by simp
next
  case (Cons i "is")
  show ?case
  proof (cases "step (fst i) (snd i) s")
    case (Inl e)
    with Cons.prems show ?thesis by simp
  next
    case (Inr p)
    obtain s' out where p: "p = (s', out)" by (cases p)
    from Cons.prems(1) have "\<not> binds k (fst i, snd i)" by simp
    with Inr p Cons.prems(2) have "map_of (battles s') k = None"
      by (auto intro: unbound_step)
    moreover from Cons.prems(1) have "list_all (\<lambda>j. \<not> binds k j) is" by simp
    ultimately have "map_of (battles (run is s')) k = None" by (rule Cons.IH [rotated])
    with Inr p show ?thesis by simp
  qed
qed

lemma absent_session_replies:
  assumes "directory_ok s" and "own_or_nothing bid" and "map_of (battles s) bid = None"
  shows "step rnd (Message x (SEND_BATTLE_MESSAGE bid u m)) s
           = Inr (s, [(To x, ERROR ''Battle not found'')])"
    and "step rnd (Message x (JOIN_BATTLE bid u n a)) s
           = Inr (s, [(To x, ERROR ''Invalid battle code or battle already started'')])"
    and "step rnd (Message x (LEAVE_BATTLE bid u)) s = Inr (s, [])"
  using assms
  by (simp_all add: send_battle_message_def leave_battle_def join_battle_fails lookup_nothing)

text \<open>
  C5, as the source has it. A \<open>LEAVE_BATTLE\<close> for a session's id, and the disconnect of
  the socket of either of its slots, remove the session from the dictionary. The id then
  stays unbound through every sequence of inputs that does not bind it again (a
  \<open>CREATE_BATTLE\<close> for it, or a pairing that draws it as its id), and in every state so
  reached a \<open>JOIN_BATTLE\<close> for the id is answered with the error
  \<open>Invalid battle code or battle already started\<close> and changes nothing. When the id
  names no member that the dictionary object inherits, a \<open>SEND_BATTLE_MESSAGE\<close> for it
  is answered with the error \<open>Battle not found\<close> and changes nothing, and a further
  \<open>LEAVE_BATTLE\<close> does nothing and emits nothing.
\<close>

theorem leave_removes_session:
  assumes "directory_ok s" and "map_of (battles s) bid = Some r"
    and "i = Message sid (LEAVE_BATTLE bid uid)
         \<or> i = Disconnect sid
           \<and> (socketId (player1 (heap s ! r)) = sid
              \<or> map_option socketId (player2 (heap s ! r)) = Some sid)"
    and "list_all (\<lambda>j. \<not> binds bid j) is"
  shows "\<exists>s' out. step rnd i s = Inr (s', out) \<and> map_of (battles s') bid = None
           \<and> map_of (battles (run is s')) bid = None
           \<and> step rnd' (Message x (JOIN_BATTLE bid u n a)) (run is s')
               = Inr (run is s', [(To x, ERROR ''Invalid battle code or battle already started'')])
           \<and> (own_or_nothing bid \<longrightarrow>
                 step rnd' (Message x (SEND_BATTLE_MESSAGE bid u m)) (run is s')
                   = Inr (run is s', [(To x, ERROR ''Battle not found'')])
                 \<and> step rnd' (Message x (LEAVE_BATTLE bid u)) (run is s') = Inr (run is s', []))"
proof -
  have "\<exists>s' out. step rnd i s = Inr (s', out) \<and> map_of (battles s') bid = None"
    using assms(3)
  proof
    assume i: "i = Message sid (LEAVE_BATTLE bid uid)"
    from leave_battle_own [OF assms(2), of uid] obtain out
      where "leave_battle bid uid s = Inr (unbind bid s, out)" ..
    with i have "step rnd i s = Inr (unbind bid s, out)" by simp
    moreover have "map_of (battles (unbind bid s)) bid = None" by (rule unbound_unbind)
    ultimately show ?thesis by blast
  next
    assume "i = Disconnect sid
      \<and> (socketId (player1 (heap s ! r)) = sid
           \<or> map_option socketId (player2 (heap s ! r)) = Some sid)"
    then have i: "i = Disconnect sid"
      and p: "socketId (player1 (heap s ! r)) = sid
           \<or> map_option socketId (player2 (heap s ! r)) = Some sid" by simp_all
    from assms(2) p have "map_of (battles (fst (on_disconnect sid s))) bid = None"
      by (rule on_disconnect_unbinds)
    moreover from i have "step rnd i s = Inr (fst (on_disconnect sid s), snd (on_disconnect sid s))"
      by simp
    ultimately show ?thesis by blast
  qed
  then obtain s' out where s': "step rnd i s = Inr (s', out)"
    and gone: "map_of (battles s') bid = None" by blast
  from s' assms(1) have "directory_ok s'" by (rule directory_ok_step)
  then have ok: "directory_ok (run is s')" by (rule directory_ok_run)
  from assms(4) gone have later: "map_of (battles (run is s')) bid = None"
    by (rule unbound_run)
  from ok later
  have join: "step rnd' (Message x (JOIN_BATTLE bid u n a)) (run is s')
      = Inr (run is s', [(To x, ERROR ''Invalid battle code or battle already started'')])"
    by (simp add: join_battle_fails)
  from absent_session_replies [OF ok _ later] join s' gone later
  show ?thesis by blast
qed

theorem leave_removes_session_witness:
  "directory_ok ex_started \<and> map_of (battles ex_started) ''ABC123'' = Some 0
   \<and> own_or_nothing ''ABC123''
   \<and> map_option socketId (player2 (heap ex_started ! 0)) = Some ''s2''
   \<and> list_all (\<lambda>j. \<not> binds ''ABC123'' j) ex_later
   \<and> map_of (battles (run ex_later ex_left)) ''ABC123'' = None
   \<and> map_of (battles (run ex_later ex_left)) ''id-8'' = Some 2
   \<and> step (''id-4'', ''C0DE04'') (Message ''s2'' (SEND_BATTLE_MESSAGE ''ABC123'' ''u2''
             \<lparr>gameOver = False, syncData = None, content = ''hit''\<rparr>)) (run ex_later ex_left)
       = Inr (run ex_later ex_left, [(To ''s2'', ERROR ''Battle not found'')])
   \<and> map_of (battles ex_dropped) ''ABC123'' = None
   \<and> step (''id-4'', ''C0DE04'') (Message ''s1'' (SEND_BATTLE_MESSAGE ''ABC123'' ''u1''
             \<lparr>gameOver = False, syncData = None, content = ''hit''\<rparr>)) ex_dropped
       = Inr (ex_dropped, [(To ''s1'', ERROR ''Battle not found'')])"
proof -
  have h1: "directory_ok ex_started" by code_simp
  have h2: "map_of (battles ex_started) ''ABC123'' = Some 0" by code_simp
  have h3: "own_or_nothing ''ABC123''" by code_simp
  have h4: "map_option socketId (player2 (heap ex_started ! 0)) = Some ''s2''" by code_simp
  have h5: "list_all (\<lambda>j. \<not> binds ''ABC123'' j) ex_later" by code_simp
  have h6: "list_all (\<lambda>j. \<not> binds ''ABC123'' j) []" by simp
  have k: "map_of (battles (run ex_later ex_left)) ''id-8'' = Some 2" by code_simp
  have a: "Message ''s1'' (LEAVE_BATTLE ''ABC123'' ''u1'') = Message ''s1'' (LEAVE_BATTLE ''ABC123'' ''u1'')
           \<or> Message ''s1'' (LEAVE_BATTLE ''ABC123'' ''u1'') = Disconnect ''s1''
             \<and> (socketId (player1 (heap ex_started ! 0)) = ''s1''
                \<or> map_option socketId (player2 (heap ex_started ! 0)) = Some ''s1'')"
    by simp
  have b: "Disconnect ''s2'' = Message ''s2'' (LEAVE_BATTLE ''ABC123'' ''u2'')
           \<or> Disconnect ''s2'' = Disconnect ''s2''
             \<and> (socketId (player1 (heap ex_started ! 0)) = ''s2''
                \<or> map_option socketId (player2 (heap ex_started ! 0)) = Some ''s2'')"
    using h4 by simp
  have l: "\<And>s' out. step (''id-3'', ''C0DE03'') (Message ''s1'' (LEAVE_BATTLE ''ABC123'' ''u1'')) ex_started
              = Inr (s', out) \<Longrightarrow> s' = ex_left"
    by (auto simp: ex_left_def split: sum.splits)
  have d: "\<And>s' out. step (''id-3'', ''C0DE03'') (Disconnect ''s2'') ex_started
              = Inr (s', out) \<Longrightarrow> s' = ex_dropped"
    by (auto simp: ex_dropped_def split: sum.splits)
  from leave_removes_session [OF h1 h2 a h5, where rnd = "(''id-3'', ''C0DE03'')"
         and rnd' = "(''id-4'', ''C0DE04'')" and x = "''s2''" and u = "''u2''"
         and m = "\<lparr>gameOver = False, syncData = None, content = ''hit''\<rparr>"] l h3
  have 1: "map_of (battles (run ex_later ex_left)) ''ABC123'' = None
     \<and> step (''id-4'', ''C0DE04'') (Message ''s2'' (SEND_BATTLE_MESSAGE ''ABC123'' ''u2''
             \<lparr>gameOver = False, syncData = None, content = ''hit''\<rparr>)) (run ex_later ex_left)
       = Inr (run ex_later ex_left, [(To ''s2'', ERROR ''Battle not found'')])"
    by blast
  from leave_removes_session [OF h1 h2 b h6, where rnd = "(''id-3'', ''C0DE03'')"
         and rnd' = "(''id-4'', ''C0DE04'')" and x = "''s1''" and u = "''u1''"
         and m = "\<lparr>gameOver = False, syncData = None, content = ''hit''\<rparr>"] d h3
  have 2: "map_of (battles ex_dropped) ''ABC123'' = None
     \<and> step (''id-4'', ''C0DE04'') (Message ''s1'' (SEND_BATTLE_MESSAGE ''ABC123'' ''u1''
             \<lparr>gameOver = False, syncData = None, content = ''hit''\<rparr>)) ex_dropped
       = Inr (ex_dropped, [(To ''s1'', ERROR ''Battle not found'')])"
    by (simp only: run.simps) blast
  from 1 2 h1 h2 h3 h4 h5 k show ?thesis by blast
qed

text \<open>
  C5 as stated has every later operation on the id fail with an error. After u1 has left
  ABC123, a second \<open>LEAVE_BATTLE\<close> for ABC123 emits no event at all; and a
  \<open>CREATE_BATTLE\<close> for ABC123 is accepted, after which a \<open>SEND_BATTLE_MESSAGE\<close> for
  ABC123 from its creator is accepted too.
\<close>

theorem later_operations_without_error:
  "map_of (battles ex_left) ''ABC123'' = None
   \<and> step (''id-4'', ''C0DE04'') (Message ''s1'' (LEAVE_BATTLE ''ABC123'' ''u1'')) ex_left
       = Inr (ex_left, [])
   \<and> step (''id-4'', ''C0DE04'') (Message ''s3'' (CREATE_BATTLE ''ABC123'' ''u3'' (Some ''Cid'') None)) ex_left
       = Inr (ex_left_recreated, [(To ''s3'', BATTLE_CODE_GENERATED ''ABC123'')])
   \<and> step (''id-5'', ''C0DE05'') (Message ''s3'' (SEND_BATTLE_MESSAGE ''ABC123'' ''u3''
             \<lparr>gameOver = False, syncData = None, content = ''hit''\<rparr>)) ex_left_recreated
       = Inr (ex_left_recreated, [])"
  by code_simp

text \<open>
  For an id that names a member of \<open>Object.prototype\<close>, \<open>battles[id]\<close> is that member
  even when no session has the id, and the two handlers that read it throw.
\<close>

lemma inherited_member_throws:
  "lookup ''constructor'' initial = Other
   \<and> step rnd (Message sid (SEND_BATTLE_MESSAGE ''constructor'' uid msg)) initial = Inl TypeError
   \<and> step rnd (Message sid (LEAVE_BATTLE ''constructor'' uid)) initial = Inl TypeError"
proof -
  have "lookup ''constructor'' initial = Other" by code_simp
  then show ?thesis by (simp add: send_battle_message_def leave_battle_def)
qed

text \<open>
  C10. For a session bound to \<open>bid\<close>, a \<open>LEAVE_BATTLE\<close> for \<open>bid\<close> whose \<open>userId\<close> is
  neither player1's nor player2's still deletes the session from the dictionary, and
  the handler emits nothing at all, so no \<open>OPPONENT_DISCONNECTED\<close> reaches either slot.
\<close>

theorem leave_battle_stranger:
  assumes "map_of (battles s) bid = Some r"
    and "userId (player1 (heap s ! r)) \<noteq> uid"
    and "map_option userId (player2 (heap s ! r)) \<noteq> Some uid"
  shows "step rnd (Message sid (LEAVE_BATTLE bid uid)) s = Inr (unbind bid s, [])
         \<and> map_of (battles (unbind bid s)) bid = None"
  using assms
  by (auto simp: leave_battle_def lookup_own unbind_def delete_conv' Let_def split: option.splits)

theorem leave_battle_stranger_witness:
  "map_of (battles ex_started) ''ABC123'' = Some 0
   \<and> userId (player1 (heap ex_started ! 0)) = ''u1''
   \<and> map_option userId (player2 (heap ex_started ! 0)) = Some ''u2''
   \<and> step (''id-3'', ''C0DE03'') (Message ''s3'' (LEAVE_BATTLE ''ABC123'' ''u3'')) ex_started
       = Inr (unbind ''ABC123'' ex_started, [])
   \<and> map_of (battles (unbind ''ABC123'' ex_started)) ''ABC123'' = None"
proof -
  have h1: "map_of (battles ex_started) ''ABC123'' = Some 0" by code_simp
  have h2: "userId (player1 (heap ex_started ! 0)) = ''u1''" by code_simp
  have h3: "map_option userId (player2 (heap ex_started ! 0)) = Some ''u2''" by code_simp
  from h2 have h2': "userId (player1 (heap ex_started ! 0)) \<noteq> ''u3''" by simp
  from h3 have h3': "map_option userId (player2 (heap ex_started ! 0)) \<noteq> Some ''u3''" by auto
  from leave_battle_stranger [OF h1 h2' h3', of "(''id-3'', ''C0DE03'')" "''s3''"] h1 h2 h3
  show ?thesis by blast
qed

subsection \<open>Creating a battle\<close>

text \<open>
  C7. \<open>CREATE_BATTLE\<close> binds the id of the message without looking whether it is bound.
  In \<open>ex_started\<close> the id ABC123 is bound to the started battle of u1 and u2; a
  \<open>CREATE_BATTLE\<close> for ABC123 from u3 binds it to a new unstarted session of u3. The
  battle of u1 and u2 is no longer in the dictionary, and the only event goes to u3.
\<close>

theorem create_battle_replaces_session:
  "map_of (battles ex_started) ''ABC123'' = Some 0
   \<and> userId (player1 (heap ex_started ! 0)) = ''u1''
   \<and> started (heap ex_started ! 0)
   \<and> step (''id-3'', ''C0DE03'') (Message ''s3'' (CREATE_BATTLE ''ABC123'' ''u3'' (Some ''Cid'') None)) ex_started
     = Inr (\<lparr>matchmakingQueue = [], battles = [(''ABC123'', 1)],
         heap = [heap ex_started ! 0,
                 \<lparr>battleId = ''ABC123'', code = ''ABC123'',
                  player1 = \<lparr>userId = ''u3'', username = ''Cid'', socketId = ''s3'',
                             appearance = ''{}'', wins = 0\<rparr>,
                  player2 = None, started = False\<rparr>], proto = None\<rparr>,
        [(To ''s3'', BATTLE_CODE_GENERATED ''ABC123'')])"
  by code_simp

text \<open>
  A \<open>CREATE_BATTLE\<close> for the id \<open>__proto__\<close> adds no key to the dictionary: the new
  battle object becomes the prototype of \<open>battles\<close>.
\<close>

lemma proto_key_not_listed:
  "step (''__proto__'', ''C0DE01'') (Message ''s1'' (CREATE_BATTLE ''__proto__'' ''u1'' None None)) initial
     = Inr (initial\<lparr>heap := [\<lparr>battleId = ''__proto__'', code = ''__proto__'',
                  player1 = \<lparr>userId = ''u1'', username = ''Anonymous'', socketId = ''s1'',
                             appearance = ''{}'', wins = 0\<rparr>,
                  player2 = None, started = False\<rparr>], proto := Some 0\<rparr>,
            [(To ''s1'', BATTLE_CODE_GENERATED ''__proto__'')])"
  by code_simp

subsection \<open>The matchmaking queue\<close>

lemma queue_processMatchmaking:
  "matchmakingQueue (fst (processMatchmaking uuid gen s)) =
     (if length (matchmakingQueue s) < 2 then matchmakingQueue s
      else drop 2 (matchmakingQueue s))"
  by (auto simp: processMatchmaking_def shift_def Let_def bind_new_def
           split: list.splits)

lemma queue_join_queue:
  "matchmakingQueue (fst (join_queue uuid gen sid uid uname app s)) =
     (let q' = filter (\<lambda>p. userId p \<noteq> uid) (matchmakingQueue s) @
               [\<lparr>userId = uid, username = or_default uname ''Anonymous'',
                 socketId = sid, appearance = or_default app ''{}''\<rparr>]
      in if length q' < 2 then q' else drop 2 q')"
  by (simp add: join_queue_def Let_def split_beta queue_processMatchmaking)

lemma queue_disconnect_entry [simp]:
  "matchmakingQueue (fst (disconnect_entry sid e acc)) = matchmakingQueue (fst acc)"
  by (cases e; cases acc) (simp add: disconnect_entry_def Let_def unbind_def)

lemma queue_fold_disconnect [simp]:
  "matchmakingQueue (fst (fold (disconnect_entry sid) es acc)) = matchmakingQueue (fst acc)"
  by (induction es arbitrary: acc) simp_all

lemma queue_on_disconnect:
  "matchmakingQueue (fst (on_disconnect sid s)) =
     filter (\<lambda>p. socketId p \<noteq> sid) (matchmakingQueue s)"
proof (cases "find (\<lambda>p. socketId p = sid) (matchmakingQueue s)")
  case None
  then have "filter (\<lambda>p. socketId p \<noteq> sid) (matchmakingQueue s) = matchmakingQueue s"
    by (auto simp: find_None_iff filter_id_conv)
  with None show ?thesis by (simp add: on_disconnect_def)
next
  case (Some p)
  then show ?thesis by (simp add: on_disconnect_def Let_def)
qed

lemma queue_on_message:
  assumes "on_message uuid gen sid m s = Inr (s', out)"
  shows "matchmakingQueue s' =
     (case m of
        JOIN_QUEUE uid uname app \<Rightarrow> matchmakingQueue (fst (join_queue uuid gen sid uid uname app s))
      | LEAVE_QUEUE uid \<Rightarrow> filter (\<lambda>p. userId p \<noteq> uid) (matchmakingQueue s)
      | _ \<Rightarrow> matchmakingQueue s)"
  using assms
  by (cases m)
     (auto simp: leave_queue_def create_battle_def bind_new_def join_battle_def
        send_battle_message_def leave_battle_def unbind_def Let_def split_beta
        split: option.splits property.splits)

lemma short_queue_step:
  assumes "step rnd i s = Inr (s', out)" and "length (matchmakingQueue s) \<le> 1"
  shows "length (matchmakingQueue s') \<le> 1"
proof (cases i)
  case (Message sid m)
  with assms(1) have m: "on_message (fst rnd) (snd rnd) sid m s = Inr (s', out)" by simp
  show ?thesis
  proof (cases m)
    case (JOIN_QUEUE uid uname app)
    have "length (filter (\<lambda>p. userId p \<noteq> uid) (matchmakingQueue s)) \<le> 1"
      using assms(2) by (meson length_filter_le order_trans)
    then show ?thesis using queue_on_message [OF m] JOIN_QUEUE
      by (auto simp: queue_join_queue Let_def)
  next
    case (LEAVE_QUEUE uid)
    have "length (filter (\<lambda>p. userId p \<noteq> uid) (matchmakingQueue s)) \<le> 1"
      using assms(2) by (meson length_filter_le order_trans)
    then show ?thesis
      using queue_on_message [OF m] LEAVE_QUEUE by simp
  qed (use queue_on_message [OF m] assms(2) in simp_all)
next
  case (Disconnect sid)
  have "length (filter (\<lambda>p. socketId p \<noteq> sid) (matchmakingQueue s)) \<le> 1"
    using assms(2) by (meson length_filter_le order_trans)
  moreover from Disconnect assms(1) have "s' = fst (on_disconnect sid s)" by auto
  ultimately show ?thesis by (simp add: queue_on_disconnect)
next
  case MatchmakingTimer
  with assms(1) have "s' = fst (processMatchmaking (fst rnd) (snd rnd) s)" by auto
  with assms(2) show ?thesis by (simp add: queue_processMatchmaking)
qed (use assms in auto)

lemma short_queue_run:
  "length (matchmakingQueue s) \<le> 1 \<Longrightarrow> length (matchmakingQueue (run is s)) \<le> 1"
  by (rule run_induct) (blast intro: short_queue_step)+

text \<open>
  C8. After any sequence of inputs from the initial state the queue has at most one
  entry, since a join that makes it two is followed by the pairing in the same handler;
  so no two entries of the queue have the same \<open>socketId\<close>.
\<close>

theorem one_entry_per_socket:
  "length (matchmakingQueue (run is initial)) \<le> 1
   \<and> distinct (map socketId (matchmakingQueue (run is initial)))"
proof -
  have "length (matchmakingQueue (run is initial)) \<le> 1"
    by (rule short_queue_run) (simp add: initial_def)
  moreover have "distinct xs" if "length xs \<le> 1" for xs :: "string list"
    using that by (cases xs) auto
  ultimately show ?thesis by simp
qed

lemma distinct_enqueue:
  assumes "distinct (map userId q)" and "userId e = uid"
  shows "distinct (map userId (filter (\<lambda>p. userId p \<noteq> uid) q @ [e]))"
  using assms by (auto simp: distinct_map_filter)

lemma distinct_drop_map: "distinct (map f q) \<Longrightarrow> distinct (map f (drop n q))"
  by (simp add: drop_map [symmetric] del: drop_map)

lemma distinct_after_pairing:
  "distinct (map f q) \<Longrightarrow> distinct (map f (if length q < 2 then q else drop 2 q))"
  by (simp add: distinct_drop_map)

lemma distinct_users_step:
  assumes "step rnd i s = Inr (s', out)" and "distinct (map userId (matchmakingQueue s))"
  shows "distinct (map userId (matchmakingQueue s'))"
proof (cases i)
  case (Message sid m)
  with assms(1) have m: "on_message (fst rnd) (snd rnd) sid m s = Inr (s', out)" by simp
  show ?thesis
  proof (cases m)
    case (JOIN_QUEUE uid uname app)
    let ?e = "\<lparr>userId = uid, username = or_default uname ''Anonymous'',
               socketId = sid, appearance = or_default app ''{}''\<rparr>"
    let ?q = "filter (\<lambda>p. userId p \<noteq> uid) (matchmakingQueue s) @ [?e]"
    have "distinct (map userId ?q)"
      using assms(2) by (intro distinct_enqueue) simp_all
    then have "distinct (map userId (if length ?q < 2 then ?q else drop 2 ?q))"
      by (rule distinct_after_pairing)
    moreover have "matchmakingQueue s' = (if length ?q < 2 then ?q else drop 2 ?q)"
      using queue_on_message [OF m] JOIN_QUEUE by (simp add: queue_join_queue Let_def)
    ultimately show ?thesis by (simp only:)
  next
    case (LEAVE_QUEUE uid)
    then show ?thesis using queue_on_message [OF m] assms(2)
      by (simp add: distinct_map_filter)
  qed (use queue_on_message [OF m] assms(2) in simp_all)
next
  case (Disconnect sid)
  with assms(1) have "s' = fst (on_disconnect sid s)" by auto
  then show ?thesis using assms(2)
    by (simp add: queue_on_disconnect distinct_map_filter)
next
  case MatchmakingTimer
  with assms(1) have "s' = fst (processMatchmaking (fst rnd) (snd rnd) s)" by auto
  then show ?thesis using distinct_after_pairing [OF assms(2)]
    by (simp add: queue_processMatchmaking)
qed (use assms in auto)

lemma distinct_users_run:
  "distinct (map userId (matchmakingQueue s)) \<Longrightarrow>
   distinct (map userId (matchmakingQueue (run is s)))"
  by (rule run_induct) (blast intro: distinct_users_step)+

lemma hd_join_queue:
  "hd (snd (join_queue uuid gen sid uid uname app s)) =
     (Everyone, QUEUE_UPDATE (filter (\<lambda>p. userId p \<noteq> uid) (matchmakingQueue s) @
        [\<lparr>userId = uid, username = or_default uname ''Anonymous'',
          socketId = sid, appearance = or_default app ''{}''\<rparr>]))"
  by (simp add: join_queue_def Let_def split_beta broadcastQueueUpdate_def)

text \<open>
  C4. If no two entries of the queue have the same \<open>userId\<close>, this stays so after every
  sequence of inputs. A \<open>JOIN_QUEUE\<close> removes the entries of its \<open>userId\<close> and appends the
  new entry: the queue it broadcasts before pairing has the new entry as its last and as
  its only entry of that \<open>userId\<close>. The queue it leaves is that one, without its first
  two entries when it has at least two.
\<close>

theorem join_queue_unique:
  assumes "distinct (map userId (matchmakingQueue s))"
  shows "distinct (map userId (matchmakingQueue (run is s)))
         \<and> (let playerInfo = \<lparr>userId = uid, username = or_default uname ''Anonymous'',
                                socketId = sid, appearance = or_default app ''{}''\<rparr>;
                 q' = filter (\<lambda>p. userId p \<noteq> uid) (matchmakingQueue s) @ [playerInfo]
             in (\<exists>s' out. step rnd (Message sid (JOIN_QUEUE uid uname app)) s = Inr (s', out)
                   \<and> hd out = (Everyone, QUEUE_UPDATE q')
                   \<and> matchmakingQueue s' = (if length q' < 2 then q' else drop 2 q'))
                \<and> distinct (map userId q')
                \<and> filter (\<lambda>p. userId p = uid) q' = [playerInfo]
                \<and> last q' = playerInfo)"
proof -
  let ?e = "\<lparr>userId = uid, username = or_default uname ''Anonymous'',
             socketId = sid, appearance = or_default app ''{}''\<rparr>"
  let ?q = "filter (\<lambda>p. userId p \<noteq> uid) (matchmakingQueue s) @ [?e]"
  let ?res = "join_queue (fst rnd) (snd rnd) sid uid uname app s"
  have 1: "distinct (map userId (matchmakingQueue (run is s)))"
    using assms by (rule distinct_users_run)
  have 2: "distinct (map userId ?q)"
    using assms by (intro distinct_enqueue) simp_all
  have 3: "filter (\<lambda>p. userId p = uid) ?q = [?e]"
    by (simp add: filter_empty_conv)
  have 4: "hd (snd ?res) = (Everyone, QUEUE_UPDATE ?q)"
    by (simp add: hd_join_queue)
  have 5: "matchmakingQueue (fst ?res) = (if length ?q < 2 then ?q else drop 2 ?q)"
    by (simp add: queue_join_queue Let_def)
  have 6: "last ?q = ?e" by simp
  have 7: "step rnd (Message sid (JOIN_QUEUE uid uname app)) s = Inr (fst ?res, snd ?res)"
    by simp
  show ?thesis
    unfolding Let_def using 1 2 3 4 5 6 7 by blast
qed

theorem join_queue_unique_witness:
  "distinct (map userId (matchmakingQueue ex_three_waiting))
   \<and> (\<exists>s' out. step (''id-1'', ''C0DE01'') (Message ''s9'' (JOIN_QUEUE ''u2'' (Some ''Bobby'') None)) ex_three_waiting
          = Inr (s', out)
        \<and> hd out = (Everyone, QUEUE_UPDATE
           [\<lparr>userId = ''u1'', username = ''Ann'', socketId = ''s1'', appearance = ''{}''\<rparr>,
            \<lparr>userId = ''u3'', username = ''Cid'', socketId = ''s3'', appearance = ''{}''\<rparr>,
            \<lparr>userId = ''u2'', username = ''Bobby'', socketId = ''s9'', appearance = ''{}''\<rparr>])
        \<and> matchmakingQueue s'
          = [\<lparr>userId = ''u2'', username = ''Bobby'', socketId = ''s9'', appearance = ''{}''\<rparr>])
   \<and> distinct (map userId (matchmakingQueue (run
        [((''id-1'', ''C0DE01''), Message ''s9'' (JOIN_QUEUE ''u2'' (Some ''Bobby'') None)),
         ((''id-2'', ''C0DE02''), Message ''s9'' (JOIN_QUEUE ''u2'' None None))] ex_three_waiting)))"
proof -
  have h: "distinct (map userId (matchmakingQueue ex_three_waiting))" by code_simp
  have q: "filter (\<lambda>p. userId p \<noteq> ''u2'') (matchmakingQueue ex_three_waiting) @
             [\<lparr>userId = ''u2'', username = or_default (Some ''Bobby'') ''Anonymous'',
               socketId = ''s9'', appearance = or_default None ''{}''\<rparr>]
           = [\<lparr>userId = ''u1'', username = ''Ann'', socketId = ''s1'', appearance = ''{}''\<rparr>,
              \<lparr>userId = ''u3'', username = ''Cid'', socketId = ''s3'', appearance = ''{}''\<rparr>,
              \<lparr>userId = ''u2'', username = ''Bobby'', socketId = ''s9'', appearance = ''{}''\<rparr>]"
    by code_simp
  from join_queue_unique [OF h, of
      "[((''id-1'', ''C0DE01''), Message ''s9'' (JOIN_QUEUE ''u2'' (Some ''Bobby'') None)),
        ((''id-2'', ''C0DE02''), Message ''s9'' (JOIN_QUEUE ''u2'' None None))]"
      "''u2''" "Some ''Bobby''" "''s9''" None "(''id-1'', ''C0DE01'')"]
  show ?thesis using h unfolding Let_def q by simp
qed

lemma processMatchmaking_short:
  "length (matchmakingQueue s) < 2 \<Longrightarrow> processMatchmaking uuid gen s = (s, [])"
  by (simp add: processMatchmaking_def)

lemma processMatchmaking_pair:
  assumes "matchmakingQueue s = p1 # p2 # rest"
  shows "processMatchmaking uuid gen s =
           (bind_new uuid \<lparr>battleId = uuid, code = gen, player1 = with_wins p1 0,
                            player2 = Some (with_wins p2 0), started = True\<rparr>
              (s\<lparr>matchmakingQueue := rest\<rparr>),
            [(To (socketId p1), MATCH_FOUND uuid (username p2) (appearance p2)),
             (To (socketId p2), MATCH_FOUND uuid (username p1) (appearance p1)),
             (Everyone, QUEUE_UPDATE rest)])"
  using assms
  by (auto simp: processMatchmaking_def shift_def Let_def broadcastQueueUpdate_def bind_new_def)

lemma distinct_map_not_in_drop:
  assumes "distinct (map f q)" and "i < n" and "i < length q"
  shows "q ! i \<notin> set (drop n q)"
proof
  assume "q ! i \<in> set (drop n q)"
  then obtain j where j: "j < length (drop n q)" "drop n q ! j = q ! i"
    by (auto simp: in_set_conv_nth)
  then have "q ! (n + j) = q ! i" and "n + j < length q" by auto
  moreover from assms(1) have "distinct q" by (simp add: distinct_map)
  ultimately have "n + j = i" using assms(3) by (simp add: nth_eq_iff_index_eq)
  with assms(2) show False by simp
qed

text \<open>
  C3. On a queue without two entries of the same \<open>userId\<close>: with fewer than two entries
  \<open>processMatchmaking\<close> changes nothing and emits nothing. With at least two it removes
  exactly the first two, the oldest, and makes them player1 and player2 of a new started
  battle in this order, which is what \<open>battles[uuid]\<close> gives afterwards; the queue is
  shorter by two and neither of the two is left in it. A second call right after, on a
  queue that had fewer than four entries, finds fewer than two and does nothing.
\<close>

theorem processMatchmaking_pairs:
  assumes "distinct (map userId (matchmakingQueue s))"
  shows "let q = matchmakingQueue s;
             s' = fst (processMatchmaking uuid gen s);
             q' = matchmakingQueue s'
         in (length q < 2 \<longrightarrow> processMatchmaking uuid gen s = (s, []))
            \<and> (2 \<le> length q \<longrightarrow>
                  q' = drop 2 q \<and> length q' + 2 = length q
                  \<and> q ! 0 \<notin> set q' \<and> q ! 1 \<notin> set q'
                  \<and> heap s' = heap s @
                       [\<lparr>battleId = uuid, code = gen, player1 = with_wins (q ! 0) 0,
                         player2 = Some (with_wins (q ! 1) 0), started = True\<rparr>]
                  \<and> lookup uuid s' = Battle (length (heap s))
                  \<and> (uuid \<noteq> ''__proto__'' \<longrightarrow> map_of (battles s') uuid = Some (length (heap s)))
                  \<and> (length q < 4 \<longrightarrow> processMatchmaking uuid' gen' s' = (s', [])))"
proof (cases "length (matchmakingQueue s) < 2")
  case True
  then show ?thesis by (simp add: processMatchmaking_short Let_def)
next
  case False
  then obtain p1 p2 rest where q: "matchmakingQueue s = p1 # p2 # rest"
    by (cases "matchmakingQueue s"; cases "tl (matchmakingQueue s)") auto
  have a: "p1 \<notin> set rest" "p2 \<notin> set rest"
    using distinct_map_not_in_drop [OF assms, of 0 2] distinct_map_not_in_drop [OF assms, of 1 2] q
    by simp_all
  have b: "length rest < 2 \<Longrightarrow>
           processMatchmaking uuid' gen'
             (bind_new uuid \<lparr>battleId = uuid, code = gen, player1 = with_wins p1 0,
                              player2 = Some (with_wins p2 0), started = True\<rparr>
                (s\<lparr>matchmakingQueue := rest\<rparr>))
           = (bind_new uuid \<lparr>battleId = uuid, code = gen, player1 = with_wins p1 0,
                              player2 = Some (with_wins p2 0), started = True\<rparr>
                (s\<lparr>matchmakingQueue := rest\<rparr>), [])"
    by (rule processMatchmaking_short) (simp add: bind_new_def)
  have c: "lookup uuid (bind_new uuid \<lparr>battleId = uuid, code = gen, player1 = with_wins p1 0,
                              player2 = Some (with_wins p2 0), started = True\<rparr>
                (s\<lparr>matchmakingQueue := rest\<rparr>)) = Battle (length (heap s))"
    by (simp add: lookup_bind_new)
  show ?thesis
    using q a b c
    by (simp add: processMatchmaking_pair [OF q] Let_def)
       (simp add: bind_new_def update_conv')
qed

theorem processMatchmaking_pairs_witness:
  "distinct (map userId (matchmakingQueue ex_three_waiting))
   \<and> matchmakingQueue (fst (processMatchmaking ''id-1'' ''C0DE01'' ex_three_waiting))
       = [\<lparr>userId = ''u3'', username = ''Cid'', socketId = ''s3'', appearance = ''{}''\<rparr>]
   \<and> processMatchmaking ''id-2'' ''C0DE02'' (fst (processMatchmaking ''id-1'' ''C0DE01'' ex_three_waiting))
       = (fst (processMatchmaking ''id-1'' ''C0DE01'' ex_three_waiting), [])
   \<and> lookup ''id-1'' (fst (processMatchmaking ''id-1'' ''C0DE01'' ex_three_waiting)) = Battle 0
   \<and> map_of (battles (fst (processMatchmaking ''id-1'' ''C0DE01'' ex_three_waiting))) ''id-1'' = Some 0
   \<and> processMatchmaking ''id-1'' ''C0DE01'' ex_created = (ex_created, [])"
proof -
  have h: "distinct (map userId (matchmakingQueue ex_three_waiting))" by code_simp
  have z: "length (heap ex_three_waiting) = 0" by code_simp
  have h': "distinct (map userId (matchmakingQueue ex_created))" by code_simp
  have l: "2 \<le> length (matchmakingQueue ex_three_waiting)" "length (matchmakingQueue ex_three_waiting) < 4"
          "drop 2 (matchmakingQueue ex_three_waiting)
             = [\<lparr>userId = ''u3'', username = ''Cid'', socketId = ''s3'', appearance = ''{}''\<rparr>]"
          "length (matchmakingQueue ex_created) < 2"
    by code_simp+
  from processMatchmaking_pairs [OF h, of "''id-1''" "''C0DE01''" "''id-2''" "''C0DE02''"]
       processMatchmaking_pairs [OF h', of "''id-1''" "''C0DE01''" "''id-2''" "''C0DE02''"]
       h l z
  show ?thesis by (simp add: Let_def)
qed

subsection \<open>Moves through the persistence gateway\<close>

text \<open>\<open>JSON.parse\<close> reads what \<open>JSON.stringify\<close> wrote.\<close>

lemma unat_small [simp]: "n < 65536 \<Longrightarrow> unat (of_nat n :: 16 word) = n"
  by (simp add: unat_of_nat)

lemma unat_bound: "unat (u :: 16 word) < 65536"
  using unsigned_less [of u, where 'a = nat] by simp

lemma unat_hex_digit: "n < 16 \<Longrightarrow> unat (hex_digit n) = (if n < 10 then 48 + n else 87 + n)"
  by (simp add: hex_digit_def)

lemma hex_value_digit: "n < 16 \<Longrightarrow> hex_value (hex_digit n) = Some n"
  by (simp add: hex_value_def unat_hex_digit)

lemma hex4_digits:
  fixes u :: "16 word"
  shows "hex4 (hex_digit (unat u div 4096)) (hex_digit (unat u div 256 mod 16))
              (hex_digit (unat u div 16 mod 16)) (hex_digit (unat u mod 16)) = Some u"
proof -
  let ?n = "unat u"
  have b: "?n < 65536" by (rule unat_bound)
  then have 1: "?n div 4096 < 16" by simp
  have a: "?n div 4096 = ?n div 256 div 16" and c: "?n div 256 = ?n div 16 div 16"
    by (simp_all add: div_mult2_eq)
  have "?n div 4096 * 16 + ?n div 256 mod 16 = ?n div 256"
    unfolding a by (rule div_mult_mod_eq)
  moreover have "?n div 256 * 16 + ?n div 16 mod 16 = ?n div 16"
    unfolding c by (rule div_mult_mod_eq)
  moreover have "?n div 16 * 16 + ?n mod 16 = ?n"
    by (rule div_mult_mod_eq)
  ultimately have
    "((?n div 4096 * 16 + ?n div 256 mod 16) * 16 + ?n div 16 mod 16) * 16 + ?n mod 16 = ?n"
    by (simp only:)
  moreover have "hex_value (hex_digit (?n div 4096)) = Some (?n div 4096)"
    "hex_value (hex_digit (?n div 256 mod 16)) = Some (?n div 256 mod 16)"
    "hex_value (hex_digit (?n div 16 mod 16)) = Some (?n div 16 mod 16)"
    "hex_value (hex_digit (?n mod 16)) = Some (?n mod 16)"
    using 1 by (simp_all add: hex_value_digit)
  ultimately show ?thesis
    by (simp add: hex4_def)
qed

lemma scan_literal:
  "32 \<le> unat c \<Longrightarrow> unat c \<noteq> 34 \<Longrightarrow> unat c \<noteq> 92 \<Longrightarrow>
   scan_string (c # rest) = map_option (apfst ((#) c)) (scan_string rest)"
  by simp

lemma scan_UnicodeEscape:
  "scan_string (UnicodeEscape u @ rest) = map_option (apfst ((#) u)) (scan_string rest)"
  by (simp add: UnicodeEscape_def Let_def hex4_digits)

lemma unat_16_eq: "unat (u :: 16 word) = n \<Longrightarrow> u = of_nat n"
  by auto

lemma scan_quote_unit:
  "scan_string (quote_unit u @ rest) = map_option (apfst ((#) u)) (scan_string rest)"
proof -
  consider (special) "unat u \<in> {8, 9, 10, 12, 13, 34, 92}"
    | (control) "unat u \<notin> {8, 9, 10, 12, 13, 34, 92}" "unat u < 32"
    | (plain) "unat u \<notin> {8, 9, 10, 12, 13, 34, 92}" "\<not> unat u < 32"
    by blast
  then show ?thesis
  proof cases
    case special
    then show ?thesis
      by (auto simp: quote_unit_def unescape_def dest!: unat_16_eq)
  next
    case control
    then show ?thesis
      by (simp add: quote_unit_def scan_UnicodeEscape)
  next
    case plain
    then show ?thesis
      by (simp add: quote_unit_def)
  qed
qed

lemma scan_surrogate:
  "is_leading_surrogate u \<or> is_trailing_surrogate u \<Longrightarrow>
   scan_string (u # rest) = map_option (apfst ((#) u)) (scan_string rest)"
  by (auto simp: is_leading_surrogate_def is_trailing_surrogate_def)

lemma scan_quoted_body:
  "scan_string (quote_units s @ 0x22 # rest) = Some (s, rest)"
proof (induction s rule: quote_units.induct)
  case 1
  show ?case by simp
next
  case (2 u)
  show ?case by (simp add: scan_UnicodeEscape scan_quote_unit)
next
  case (3 u v vs)
  then show ?case
    by (simp add: scan_UnicodeEscape scan_quote_unit scan_surrogate del: scan_string.simps)
qed

lemma skip_ws_no_ws [simp]: "\<not> is_ws c \<Longrightarrow> skip_ws (c # cs) = c # cs"
  by (simp add: skip_ws_def)

lemma not_ws [simp]: "\<not> is_ws 0x22" "\<not> is_ws 0x2C" "\<not> is_ws 0x5D" "\<not> is_ws 0x5B"
  by (simp_all add: is_ws_def)

lemma skip_ws_Nil [simp]: "skip_ws [] = []"
  by (simp add: skip_ws_def)

lemma scan_elements_quoted:
  "scan_elements (QuoteJSONString x @ rest) =
     (case skip_ws rest of
        [] \<Rightarrow> None
      | c # r2 \<Rightarrow>
          if unat c = 44 then map_option (apfst ((#) x)) (scan_elements r2)
          else if unat c = 93 then Some ([x], r2)
          else None)"
proof -
  have "scan_string (quote_units x @ 0x22 # rest) = Some (x, rest)"
    by (rule scan_quoted_body)
  then show ?thesis
    by (subst scan_elements.simps) (simp add: QuoteJSONString_def)
qed

declare scan_elements.simps [simp del]

lemma scan_elements_joined:
  "ms \<noteq> [] \<Longrightarrow>
   scan_elements (join_commas (map QuoteJSONString ms) @ 0x5D # rest) = Some (ms, rest)"
proof (induction ms rule: join_commas.induct)
  case 1
  then show ?case by simp
next
  case (2 x)
  show ?case by (simp add: scan_elements_quoted)
next
  case (3 x y ys)
  then have IH: "scan_elements (join_commas (map QuoteJSONString (y # ys)) @ 0x5D # rest)
                 = Some (y # ys, rest)" by simp
  have eq: "join_commas (map QuoteJSONString (x # y # ys)) @ 0x5D # rest
            = QuoteJSONString x @
              (0x2C # (join_commas (map QuoteJSONString (y # ys)) @ 0x5D # rest))"
    by simp
  show ?case
    by (subst eq, subst scan_elements_quoted) (use IH in simp)
qed

lemma JSON_round_trip: "JSON_parse (JSON_stringify ms) = Some ms"
proof (cases ms)
  case Nil
  then show ?thesis by (simp add: JSON_parse_def JSON_stringify_def)
next
  case (Cons m ms')
  then have ne: "ms \<noteq> []" by simp
  have hd_q: "\<exists>t. join_commas (map QuoteJSONString ms) = 0x22 # t"
    using Cons by (cases ms') (simp_all add: QuoteJSONString_def)
  then obtain t where t: "join_commas (map QuoteJSONString ms) = 0x22 # t" ..
  from scan_elements_joined [OF ne, of "[]"]
  have "scan_elements (join_commas (map QuoteJSONString ms) @ [0x5D]) = Some (ms, [])" .
  then show ?thesis
    by (simp add: JSON_parse_def JSON_stringify_def t)
qed

text \<open>The text that \<open>JSON.stringify\<close> makes is well-formed, so the driver reads it
  back as it was written.\<close>

lemma plain_below: "unat u < 0xD800 \<Longrightarrow> plain u"
  by (simp add: plain_def is_leading_surrogate_def is_trailing_surrogate_def)

lemma well_formed_Cons_plain: "plain u \<Longrightarrow> well_formed (u # xs) = well_formed xs"
  by (cases xs) (simp_all add: plain_def)

lemma well_formed_append_plain: "list_all plain p \<Longrightarrow> well_formed (p @ xs) = well_formed xs"
  by (induction p) (simp_all add: well_formed_Cons_plain)

lemma plain_hex_digit: "n < 16 \<Longrightarrow> plain (hex_digit n)"
  by (rule plain_below) (simp add: unat_hex_digit)

lemma plain_UnicodeEscape: "list_all plain (UnicodeEscape u)"
proof -
  have "unat u div 4096 < 16" using unat_bound [of u] by simp
  then show ?thesis
    by (simp add: UnicodeEscape_def Let_def plain_hex_digit plain_below)
qed

lemma plain_quote_unit: "plain u \<Longrightarrow> list_all plain (quote_unit u)"
  by (simp add: quote_unit_def Let_def plain_UnicodeEscape plain_below)

lemma well_formed_quote_units:
  "well_formed (quote_units s @ t) = well_formed t"
proof (induction s rule: quote_units.induct)
  case 1
  show ?case by simp
next
  case (2 u)
  show ?case
    by (simp add: well_formed_append_plain plain_UnicodeEscape plain_quote_unit plain_def)
next
  case (3 u v vs)
  then show ?case
    by (simp add: well_formed_append_plain plain_UnicodeEscape plain_quote_unit plain_def)
qed

lemma well_formed_QuoteJSONString:
  "well_formed (QuoteJSONString s @ t) = well_formed t"
  by (simp add: QuoteJSONString_def well_formed_Cons_plain well_formed_quote_units plain_below)

lemma well_formed_join_commas:
  "well_formed (join_commas (map QuoteJSONString ms) @ t) = well_formed t"
proof (induction ms rule: induct_list012)
  case 1
  show ?case by simp
next
  case (2 x)
  show ?case by (simp add: well_formed_QuoteJSONString)
next
  case (3 x y zs)
  then show ?case
    by (simp add: well_formed_QuoteJSONString well_formed_Cons_plain plain_below)
qed

lemma well_formed_JSON_stringify: "well_formed (JSON_stringify ms)"
  by (simp add: JSON_stringify_def well_formed_Cons_plain well_formed_join_commas plain_below
                is_leading_surrogate_def is_trailing_surrogate_def)

lemma with_moves_fields [simp]:
  "id' (with_moves r m) = id' r"
  "date (with_moves r m) = date r"
  "moves (with_moves r m) = m"
  "battle_record.winner (with_moves r m) = battle_record.winner r"
  "battle_record.player1 (with_moves r m) = battle_record.player1 r"
  "battle_record.player2 (with_moves r m) = battle_record.player2 r"
  by (simp_all add: with_moves_def)

lemma read_battle_fields [simp]:
  "date (read_battle dec r) = date r"
  "moves (read_battle dec r) = dec (moves r)"
  "id' (read_battle dec r) = dec (id' r)"
  by (simp_all add: read_battle_def)

lemma bind_battle_fields [simp]:
  "date (bind_battle enc b) = date b"
  "moves (bind_battle enc b) = enc (moves b)"
  "id' (bind_battle enc b) = enc (id' b)"
  by (simp_all add: bind_battle_def)

lemma replace_unpaired_well_formed: "well_formed s \<Longrightarrow> replace_unpaired s = s"
  by (induction s rule: well_formed.induct) (auto split: if_splits)

lemma parse_rows_all:
  "list_all (\<lambda>r. JSON_parse (moves r) \<noteq> None) rs \<Longrightarrow>
   parse_rows rs = Inr (map (\<lambda>r. with_moves r (the (JSON_parse (moves r)))) rs)"
  by (induction rs) auto

lemma stored_text_read_back:
  assumes "\<And>s. well_formed s \<Longrightarrow> dec (enc s) = s"
  shows "dec (enc (JSON_stringify ms)) = JSON_stringify ms"
  by (rule assms) (rule well_formed_JSON_stringify)

lemma written_call:
  assumes "\<And>s. well_formed s \<Longrightarrow> dec (enc s) = s"
    and "list_all (written dec) (battles_table d)"
  shows "list_all (written dec) (battles_table (call enc c d))"
proof (cases c)
  case (SaveProfile now p)
  with assms(2) show ?thesis
    by (simp add: saveProfile_def updateProfile_def Let_def)
next
  case (RecordBattle b)
  with assms(2) show ?thesis
    by (auto simp: recordBattle_def insertBattle_def written_def JSON_round_trip Let_def
                   stored_text_read_back [of dec enc, OF assms(1)]
             split: sum.splits option.splits if_splits)
qed

lemma written_calls:
  assumes "\<And>s. well_formed s \<Longrightarrow> dec (enc s) = s"
    and "list_all (written dec) (battles_table d)"
  shows "list_all (written dec) (battles_table (fold (call enc) cs d))"
  using assms(2)
  by (induction cs arbitrary: d) (simp_all add: written_call [of dec enc, OF assms(1)])

lemma written_new:
  assumes "\<And>s. well_formed s \<Longrightarrow> dec (enc s) = s"
  shows "list_all (written dec) (battles_table (fold (call enc) cs (new_db fk)))"
  by (rule written_calls [of dec enc, OF assms]) (simp_all add: new_db_def)

text \<open>The first rows of a sorted table.\<close>

lemma filter_le_takeWhile:
  fixes f :: "'a \<Rightarrow> 'b :: linorder"
  shows "sorted (map f ys) \<Longrightarrow> filter (\<lambda>r. f r \<le> c) ys = takeWhile (\<lambda>r. f r \<le> c) ys"
proof (induction ys)
  case Nil
  then show ?case by simp
next
  case (Cons y ys)
  show ?case
  proof (cases "f y \<le> c")
    case True
    with Cons show ?thesis by simp
  next
    case False
    with Cons.prems have "\<forall>z \<in> set ys. \<not> f z \<le> c" by fastforce
    with False show ?thesis by (simp add: filter_empty_conv)
  qed
qed

lemma filter_less_takeWhile:
  fixes f :: "'a \<Rightarrow> 'b :: linorder"
  shows "sorted (map f ys) \<Longrightarrow> filter (\<lambda>r. f r < c) ys = takeWhile (\<lambda>r. f r < c) ys"
proof (induction ys)
  case Nil
  then show ?case by simp
next
  case (Cons y ys)
  show ?case
  proof (cases "f y < c")
    case True
    with Cons show ?thesis by simp
  next
    case False
    with Cons.prems have "\<forall>z \<in> set ys. \<not> f z < c" by fastforce
    with False show ?thesis by (simp add: filter_empty_conv)
  qed
qed

lemma in_first_rows:
  fixes f :: "'a \<Rightarrow> 'b :: linorder"
  assumes "x \<in> set xs" and "length (filter (\<lambda>r. f r \<le> f x) xs) \<le> n"
  shows "x \<in> set (take n (sort_key f xs))"
proof -
  define ys where "ys = sort_key f xs"
  define k where "k = length (takeWhile (\<lambda>r. f r \<le> f x) ys)"
  have "sorted (map f ys)" by (simp add: ys_def)
  then have tw: "filter (\<lambda>r. f r \<le> f x) ys = takeWhile (\<lambda>r. f r \<le> f x) ys"
    by (rule filter_le_takeWhile)
  have "length (filter (\<lambda>r. f r \<le> f x) ys) \<le> n"
    using assms(2) by (simp add: ys_def filter_sort)
  then have k: "k \<le> n" by (simp add: k_def tw)
  have "x \<in> set (filter (\<lambda>r. f r \<le> f x) ys)"
    using assms(1) by (simp add: ys_def)
  then have "x \<in> set (takeWhile (\<lambda>r. f r \<le> f x) ys)" by (simp add: tw)
  moreover have "takeWhile (\<lambda>r. f r \<le> f x) ys = take k ys"
    unfolding k_def by (rule takeWhile_eq_take)
  ultimately have "x \<in> set (take k ys)" by simp
  moreover from k have "set (take k ys) \<subseteq> set (take n ys)"
    by (rule set_take_subset_set_take)
  ultimately show ?thesis by (auto simp: ys_def)
qed

lemma first_rows_below:
  fixes f :: "'a \<Rightarrow> 'b :: linorder"
  assumes "n \<le> length (filter (\<lambda>r. f r < c) xs)"
  shows "list_all (\<lambda>r. f r < c) (take n (sort_key f xs))"
proof -
  define ys where "ys = sort_key f xs"
  define k where "k = length (takeWhile (\<lambda>r. f r < c) ys)"
  have "sorted (map f ys)" by (simp add: ys_def)
  then have tw: "filter (\<lambda>r. f r < c) ys = takeWhile (\<lambda>r. f r < c) ys"
    by (rule filter_less_takeWhile)
  have "n \<le> length (filter (\<lambda>r. f r < c) ys)"
    using assms by (simp add: ys_def filter_sort)
  then have k: "n \<le> k" by (simp add: k_def tw)
  have tk: "takeWhile (\<lambda>r. f r < c) ys = take k ys"
    unfolding k_def by (rule takeWhile_eq_take)
  from k have "set (take n ys) \<subseteq> set (take k ys)"
    by (rule set_take_subset_set_take)
  then have "set (take n ys) \<subseteq> set (takeWhile (\<lambda>r. f r < c) ys)"
    by (simp only: tk)
  then have "\<forall>r \<in> set (take n ys). f r < c"
    by (auto dest: set_takeWhileD)
  then show ?thesis by (simp add: list_all_iff ys_def)
qed

text \<open>The example driver and the example databases.\<close>

lemma of_char_bound: "(of_char c :: nat) < 65536"
  by (rule less_trans [OF nat_of_char_less_256]) simp

lemma unat_js_unit: "unat (of_nat (of_char c) :: 16 word) = of_char c"
  using of_char_bound by (rule unat_small)

lemma plain_js: "list_all plain (js s)"
proof -
  have "unat (of_nat (of_char c) :: 16 word) < 0xD800" for c :: char
    unfolding unat_js_unit by (rule less_trans [OF nat_of_char_less_256]) simp
  then show ?thesis by (simp add: js_def list_all_iff plain_below)
qed

lemma well_formed_js: "well_formed (js s)"
  using well_formed_append_plain [OF plain_js, of s "[]"] by simp

lemma replace_unpaired_js [simp]: "replace_unpaired (js s) = js s"
  by (rule replace_unpaired_well_formed) (rule well_formed_js)

lemma replace_unpaired_JSON_stringify [simp]:
  "replace_unpaired (JSON_stringify ms) = JSON_stringify ms"
  by (rule replace_unpaired_well_formed) (rule well_formed_JSON_stringify)

lemma ex_driver: "well_formed s \<Longrightarrow> ex_decode (replace_unpaired s) = s"
  by (simp add: ex_decode_def replace_unpaired_well_formed)

lemma js_eq_iff [simp]: "js a = js b \<longleftrightarrow> a = b"
proof -
  have "inj (\<lambda>c :: char. of_nat (of_char c) :: 16 word)"
  proof (rule injI)
    fix x y :: char
    assume "(of_nat (of_char x) :: 16 word) = of_nat (of_char y)"
    then have "unat (of_nat (of_char x) :: 16 word) = unat (of_nat (of_char y) :: 16 word)"
      by simp
    then have "(of_char x :: nat) = of_char y" by (simp only: unat_js_unit)
    then show "x = y" by simp
  qed
  then have "inj js" unfolding js_def [abs_def] by (rule inj_mapI)
  then show ?thesis by (simp add: inj_eq)
qed

lemma map_option_ex_decode [simp]: "map_option ex_decode x = x"
  by (cases x) (simp_all add: ex_decode_def)

lemma read_bound_battle:
  "stored_as_given b \<Longrightarrow>
   with_moves (read_battle ex_decode
      (bind_battle replace_unpaired (with_moves b (JSON_stringify (moves b))))) (moves b) = b"
  by (cases b)
     (simp add: stored_as_given_def read_battle_def bind_battle_def with_moves_def ex_decode_def
                option.map_comp comp_def option.map_ident)

lemma parse_rows_written:
  "list_all stored_as_given bs \<Longrightarrow>
   parse_rows (map (read_battle ex_decode)
      (map (\<lambda>b. bind_battle replace_unpaired (with_moves b (JSON_stringify (moves b)))) bs))
   = Inr bs"
proof (induction bs)
  case Nil
  show ?case by simp
next
  case (Cons b bs)
  then have "parse_rows (map (read_battle ex_decode)
      (map (\<lambda>b. bind_battle replace_unpaired (with_moves b (JSON_stringify (moves b)))) bs))
   = Inr bs" by simp
  moreover have "moves (read_battle ex_decode
      (bind_battle replace_unpaired (with_moves b (JSON_stringify (moves b)))))
      = JSON_stringify (moves b)"
    by (simp add: ex_decode_def)
  moreover from Cons.prems have "stored_as_given b" by simp
  ultimately show ?case
    by (simp add: JSON_round_trip read_bound_battle)
qed

lemma recordBattle_succeeds:
  assumes "battle_record.winner b = Some w"
    and "replace_unpaired (id' b) \<notin> set (map id' (battles_table d))"
    and "references_profile (replace_unpaired (battle_record.player1 b)) d"
        "references_profile (replace_unpaired (battle_record.player2 b)) d"
        "references_profile (replace_unpaired w) d"
  shows "recordBattle replace_unpaired b d
         = Inr (id' b, d\<lparr>battles_table := battles_table d
                 @ [bind_battle replace_unpaired (with_moves b (JSON_stringify (moves b)))]\<rparr>)"
  using assms by (simp add: recordBattle_def insertBattle_def bind_battle_def)

lemma ex_db_tables:
  "foreign_keys ex_db" "map profile_row.userId (profiles_table ex_db) = [js ''u1'', js ''u2'']"
  "battles_table ex_db = []"
  by (simp_all add: ex_db_def ex_profiles_def new_db_def saveProfile_def updateProfile_def
                    ex_profile_def bind_profile_def)

lemma references_profile_frame [simp]:
  "references_profile u (d\<lparr>battles_table := t\<rparr>) = references_profile u d"
  by (simp add: references_profile_def)

lemma record_many:
  assumes "distinct (map id' bs)" and "list_all stored_as_given bs"
    and "set (map id' bs) \<inter> set (map id' (battles_table d)) = {}"
    and "\<forall>b \<in> set bs. \<exists>w. battle_record.winner b = Some w \<and> references_profile (battle_record.player1 b) d
                          \<and> references_profile (battle_record.player2 b) d \<and> references_profile w d"
  shows "fold (call replace_unpaired) (map RecordBattle bs) d
         = d\<lparr>battles_table := battles_table d
                @ map (\<lambda>b. bind_battle replace_unpaired
                               (with_moves b (JSON_stringify (moves b)))) bs\<rparr>"
  using assms
proof (induction bs arbitrary: d)
  case Nil
  then show ?case by simp
next
  case (Cons b bs)
  let ?row = "bind_battle replace_unpaired (with_moves b (JSON_stringify (moves b)))"
  let ?d = "d\<lparr>battles_table := battles_table d @ [?row]\<rparr>"
  from Cons.prems(4) obtain w where w: "battle_record.winner b = Some w" "references_profile (battle_record.player1 b) d"
    "references_profile (battle_record.player2 b) d" "references_profile w d" by auto
  from Cons.prems(2) have g: "stored_as_given b" by simp
  with w(1) have e: "replace_unpaired (id' b) = id' b" "replace_unpaired (battle_record.player1 b) = battle_record.player1 b"
    "replace_unpaired (battle_record.player2 b) = battle_record.player2 b" "replace_unpaired w = w"
    by (simp_all add: stored_as_given_def)
  from Cons.prems(3) have "id' b \<notin> set (map id' (battles_table d))" by auto
  with e(1) have "replace_unpaired (id' b) \<notin> set (map id' (battles_table d))"
    by simp
  moreover have "references_profile (replace_unpaired (battle_record.player1 b)) d"
    "references_profile (replace_unpaired (battle_record.player2 b)) d"
    "references_profile (replace_unpaired w) d"
    using w(2,3,4) e by simp_all
  ultimately have r: "recordBattle replace_unpaired b d = Inr (id' b, ?d)"
    using w(1) by (intro recordBattle_succeeds)
  have "fold (call replace_unpaired) (map RecordBattle bs) ?d
        = ?d\<lparr>battles_table := battles_table ?d
                @ map (\<lambda>b. bind_battle replace_unpaired
                               (with_moves b (JSON_stringify (moves b)))) bs\<rparr>"
  proof (rule Cons.IH)
    show "distinct (map id' bs)" using Cons.prems(1) by simp
    show "list_all stored_as_given bs" using Cons.prems(2) by simp
    show "set (map id' bs) \<inter> set (map id' (battles_table ?d)) = {}"
      using Cons.prems(1,3) e(1) by auto
    show "\<forall>b \<in> set bs. \<exists>w. battle_record.winner b = Some w \<and> references_profile (battle_record.player1 b) ?d
                          \<and> references_profile (battle_record.player2 b) ?d \<and> references_profile w ?d"
      using Cons.prems(4) by simp
  qed
  with r show ?case by simp
qed

lemma ex_ten_given: "list_all stored_as_given ex_ten"
  by (simp add: ex_ten_def ex_battle_def stored_as_given_def)

lemma ex_db_full_tables:
  "battles_table ex_db_full
   = map (\<lambda>b. bind_battle replace_unpaired (with_moves b (JSON_stringify (moves b)))) ex_ten"
  "foreign_keys ex_db_full"
  "map profile_row.userId (profiles_table ex_db_full) = [js ''u1'', js ''u2'']"
proof -
  have "ex_db_full = fold (call replace_unpaired) (map RecordBattle ex_ten) ex_db"
    by (simp add: ex_db_full_def ex_db_def)
  also have "\<dots> = ex_db\<lparr>battles_table := battles_table ex_db
                @ map (\<lambda>b. bind_battle replace_unpaired
                               (with_moves b (JSON_stringify (moves b)))) ex_ten\<rparr>"
    by (rule record_many)
       (simp_all add: ex_ten_given, simp_all add: ex_ten_def ex_battle_def ex_db_tables references_profile_def)
  finally have e: "ex_db_full = ex_db\<lparr>battles_table := battles_table ex_db
                @ map (\<lambda>b. bind_battle replace_unpaired
                               (with_moves b (JSON_stringify (moves b)))) ex_ten\<rparr>" .
  show "battles_table ex_db_full
   = map (\<lambda>b. bind_battle replace_unpaired (with_moves b (JSON_stringify (moves b)))) ex_ten"
    by (simp add: e ex_db_tables)
  show "foreign_keys ex_db_full" by (simp add: e ex_db_tables)
  show "map profile_row.userId (profiles_table ex_db_full) = [js ''u1'', js ''u2'']"
    by (simp add: e ex_db_tables)
qed

lemma ex_late_recorded:
  "recordBattle replace_unpaired ex_late ex_db_full
   = Inr (js ''late'', ex_db_full\<lparr>battles_table := battles_table ex_db_full
            @ [bind_battle replace_unpaired (with_moves ex_late (JSON_stringify (moves ex_late)))]\<rparr>)"
proof -
  have "recordBattle replace_unpaired ex_late ex_db_full
   = Inr (id' ex_late, ex_db_full\<lparr>battles_table := battles_table ex_db_full
            @ [bind_battle replace_unpaired (with_moves ex_late (JSON_stringify (moves ex_late)))]\<rparr>)"
    by (rule recordBattle_succeeds [where w = "js ''u1''"])
       (simp_all add: ex_late_def ex_battle_def ex_db_full_tables ex_ten_def
                      references_profile_def)
  then show ?thesis by (simp add: ex_late_def ex_battle_def)
qed

text \<open>
  C9, as the source has it. Let the driver read every well-formed string back as it was
  written, let the database have been written only by calls of \<open>saveProfile\<close> and
  \<open>recordBattle\<close>, and let \<open>recordBattle\<close> succeed on a battle record. If fewer than
  ten stored battles have a date at or after the record's, \<open>getRecentBattles\<close> returns a
  list with a record of that date and of that id, as the driver reads it back, whose
  moves are the moves that were recorded, in their order. If at least ten stored battles
  have a later date, \<open>getRecentBattles\<close> returns ten records, all of a later date, and
  the record is not among them.
\<close>

theorem battle_moves_round_trip:
  assumes "\<And>s. well_formed s \<Longrightarrow> dec (enc s) = s"
    and "d = fold (call enc) cs (new_db fk)"
    and "recordBattle enc b d = Inr (i, d')"
  shows "(length (filter (\<lambda>r. date b \<le> date r) (battles_table d)) < 10 \<longrightarrow>
            (\<exists>rs. getRecentBattles dec d' = Inr rs
                  \<and> (\<exists>r \<in> set rs. id' r = dec (enc (id' b)) \<and> date r = date b
                                   \<and> moves r = moves b)))
         \<and> (10 \<le> length (filter (\<lambda>r. date b < date r) (battles_table d)) \<longrightarrow>
            (\<exists>rs. getRecentBattles dec d' = Inr rs \<and> length rs = 10
                  \<and> list_all (\<lambda>r. date b < date r) rs))"
proof -
  define row where "row = bind_battle enc (with_moves b (JSON_stringify (moves b)))"
  define rd where "rd = (\<lambda>r. with_moves (read_battle dec r)
                               (the (JSON_parse (moves (read_battle dec r)))))"
  define xs where "xs = battles_table d @ [row]"
  define sel where "sel = take 10 (sort_key (\<lambda>r. - date r) xs)"
  have stored: "dec (enc (JSON_stringify (moves b))) = JSON_stringify (moves b)"
    using assms(1) by (rule stored_text_read_back)
  have row: "date row = date b" "written dec row" "id' (rd row) = dec (enc (id' b))"
    "date (rd row) = date b" "moves (rd row) = moves b"
    by (simp_all add: row_def rd_def written_def stored JSON_round_trip)
  have rd_date: "date (rd r) = date r" for r by (simp add: rd_def)
  have ins: "insertBattle enc (with_moves b (JSON_stringify (moves b))) d = Inr d'"
    using assms(3) by (auto simp: recordBattle_def split: sum.splits)
  then have d': "battles_table d' = xs"
    by (auto simp: insertBattle_def xs_def row_def Let_def split: if_splits option.splits)
  have old: "list_all (written dec) (battles_table d)"
    unfolding assms(2) using assms(1) by (rule written_new)
  have "set sel \<subseteq> set xs"
    unfolding sel_def by (metis set_take_subset set_sort)
  moreover have "list_all (written dec) xs"
    using old row(2) by (simp add: xs_def)
  ultimately have "list_all (written dec) sel"
    by (auto simp: list_all_iff)
  then have "list_all (\<lambda>r. JSON_parse (moves r) \<noteq> None) (map (read_battle dec) sel)"
    by (simp add: list_all_iff written_def)
  then have "parse_rows (map (read_battle dec) sel) = Inr (map rd sel)"
    by (simp add: parse_rows_all rd_def comp_def)
  then have res: "getRecentBattles dec d' = Inr (map rd sel)"
    by (simp add: getRecentBattles_def getRecentBattles_statement_def d' sel_def [symmetric])
  have recent: "\<exists>rs. getRecentBattles dec d' = Inr rs
                     \<and> (\<exists>r \<in> set rs. id' r = dec (enc (id' b)) \<and> date r = date b
                                      \<and> moves r = moves b)"
    if few: "length (filter (\<lambda>r. date b \<le> date r) (battles_table d)) < 10"
  proof -
    have "filter (\<lambda>r. - date r \<le> - date row) xs
          = filter (\<lambda>r. date b \<le> date r) (battles_table d) @ [row]"
      by (simp add: xs_def row(1))
    then have "length (filter (\<lambda>r. - date r \<le> - date row) xs) \<le> 10"
      using few by simp
    moreover have "row \<in> set xs" by (simp add: xs_def)
    ultimately have "row \<in> set sel"
      unfolding sel_def by (intro in_first_rows)
    then have "rd row \<in> set (map rd sel)" by simp
    with res row(3,4,5) show ?thesis by blast
  qed
  have older: "\<exists>rs. getRecentBattles dec d' = Inr rs \<and> length rs = 10
                    \<and> list_all (\<lambda>r. date b < date r) rs"
    if many: "10 \<le> length (filter (\<lambda>r. date b < date r) (battles_table d))"
  proof -
    have "filter (\<lambda>r. - date r < - date b) xs
          = filter (\<lambda>r. date b < date r) (battles_table d)"
      by (simp add: xs_def row(1))
    then have "10 \<le> length (filter (\<lambda>r. - date r < - date b) xs)"
      using many by simp
    then have "list_all (\<lambda>r. - date r < - date b) sel"
      unfolding sel_def by (rule first_rows_below)
    then have "list_all (\<lambda>r. date b < date r) (map rd sel)"
      by (simp add: list_all_iff rd_date)
    moreover have "length (filter (\<lambda>r. date b < date r) (battles_table d))
                   \<le> length (battles_table d)"
      by (rule length_filter_le)
    with many have "10 \<le> length (battles_table d)" by (rule order_trans)
    then have "length (map rd sel) = 10" by (simp add: sel_def xs_def)
    ultimately show ?thesis using res by blast
  qed
  from recent older show ?thesis by blast
qed

theorem battle_moves_round_trip_witness:
  "ex_db = fold (call replace_unpaired) ex_profiles (new_db True)
   \<and> recordBattle replace_unpaired ex_first ex_db
     = Inr (js ''first'', call replace_unpaired (RecordBattle ex_first) ex_db)
   \<and> length (filter (\<lambda>r. date ex_first \<le> date r) (battles_table ex_db)) = 0
   \<and> (\<exists>rs. getRecentBattles ex_decode (call replace_unpaired (RecordBattle ex_first) ex_db) = Inr rs
         \<and> (\<exists>r \<in> set rs. id' r = js ''first'' \<and> date r = 50 \<and> moves r = ex_three_moves))
   \<and> ex_db_full = fold (call replace_unpaired) (ex_profiles @ map RecordBattle ex_ten) (new_db True)
   \<and> recordBattle replace_unpaired ex_late ex_db_full
     = Inr (js ''late'', call replace_unpaired (RecordBattle ex_late) ex_db_full)
   \<and> length (filter (\<lambda>r. date ex_late < date r) (battles_table ex_db_full)) = 10
   \<and> (\<exists>rs. getRecentBattles ex_decode (call replace_unpaired (RecordBattle ex_late) ex_db_full) = Inr rs
         \<and> length rs = 10 \<and> list_all (\<lambda>r. 1 < date r) rs)"
proof -
  have a1: "ex_db = fold (call replace_unpaired) ex_profiles (new_db True)" by (rule ex_db_def)
  have "recordBattle replace_unpaired ex_first ex_db
        = Inr (id' ex_first, ex_db\<lparr>battles_table := battles_table ex_db
                 @ [bind_battle replace_unpaired (with_moves ex_first (JSON_stringify (moves ex_first)))]\<rparr>)"
    by (rule recordBattle_succeeds [where w = "js ''u1''"])
       (simp_all add: ex_first_def ex_battle_def ex_db_tables references_profile_def)
  then have a2: "recordBattle replace_unpaired ex_first ex_db
                 = Inr (js ''first'', call replace_unpaired (RecordBattle ex_first) ex_db)"
    by (simp add: ex_first_def ex_battle_def)
  have a3: "length (filter (\<lambda>r. date ex_first \<le> date r) (battles_table ex_db)) = 0"
    by (simp add: ex_db_tables)
  then have a3': "length (filter (\<lambda>r. date ex_first \<le> date r) (battles_table ex_db)) < 10"
    by simp
  have m: "moves ex_first = ex_three_moves" "date ex_first = 50"
    "ex_decode (replace_unpaired (id' ex_first)) = js ''first''"
    "date ex_late = 1"
    by (simp_all add: ex_first_def ex_late_def ex_battle_def ex_decode_def)
  have b1: "ex_db_full = fold (call replace_unpaired) (ex_profiles @ map RecordBattle ex_ten) (new_db True)"
    by (rule ex_db_full_def)
  have b2: "recordBattle replace_unpaired ex_late ex_db_full
            = Inr (js ''late'', call replace_unpaired (RecordBattle ex_late) ex_db_full)"
    by (simp add: ex_late_recorded)
  have b3: "length (filter (\<lambda>r. date ex_late < date r) (battles_table ex_db_full)) = 10"
    by (simp add: ex_db_full_tables ex_ten_def ex_late_def ex_battle_def)
  then have b3': "10 \<le> length (filter (\<lambda>r. date ex_late < date r) (battles_table ex_db_full))"
    by simp
  from battle_moves_round_trip [of ex_decode replace_unpaired, OF ex_driver a1 a2] a3'
  have A: "\<exists>rs. getRecentBattles ex_decode (call replace_unpaired (RecordBattle ex_first) ex_db) = Inr rs
         \<and> (\<exists>r \<in> set rs. id' r = js ''first'' \<and> date r = 50 \<and> moves r = ex_three_moves)"
    unfolding m by blast
  from battle_moves_round_trip [of ex_decode replace_unpaired, OF ex_driver b1 b2] b3'
  have B: "\<exists>rs. getRecentBattles ex_decode (call replace_unpaired (RecordBattle ex_late) ex_db_full) = Inr rs
         \<and> length rs = 10 \<and> list_all (\<lambda>r. 1 < date r) rs"
    unfolding m by blast
  from a1 a2 a3 A b1 b2 b3 B show ?thesis by blast
qed

text \<open>
  C9 as stated has the record returned whenever it was recorded. On a database with ten
  battles of the dates 109 to 100, the battle \<open>late\<close> of date 1 is recorded with three
  moves, and \<open>getRecentBattles\<close> returns the ten others, none of which has these moves.
\<close>

theorem recent_battles_omit_older_record:
  "recordBattle replace_unpaired ex_late ex_db_full
     = Inr (js ''late'', call replace_unpaired (RecordBattle ex_late) ex_db_full)
   \<and> moves ex_late = ex_three_moves
   \<and> getRecentBattles ex_decode (call replace_unpaired (RecordBattle ex_late) ex_db_full)
     = Inr ex_ten
   \<and> ex_three_moves \<notin> set (map moves ex_ten)"
proof -
  let ?enc = "\<lambda>b :: BlobBattleRecord.
                bind_battle replace_unpaired (with_moves b (JSON_stringify (moves b)))"
  have c: "call replace_unpaired (RecordBattle ex_late) ex_db_full
           = ex_db_full\<lparr>battles_table := map ?enc ex_ten @ [?enc ex_late]\<rparr>"
    by (simp add: ex_late_recorded ex_db_full_tables)
  have 1: "recordBattle replace_unpaired ex_late ex_db_full
           = Inr (js ''late'', call replace_unpaired (RecordBattle ex_late) ex_db_full)"
    by (simp add: ex_late_recorded)
  have 2: "moves ex_late = ex_three_moves" by (simp add: ex_late_def ex_battle_def)
  have "sorted (map (\<lambda>r. - date r) (map ?enc ex_ten @ [?enc ex_late]))"
    by (simp add: ex_ten_def ex_late_def ex_battle_def)
  then have "sort_key (\<lambda>r. - date r) (map ?enc ex_ten @ [?enc ex_late])
             = map ?enc ex_ten @ [?enc ex_late]"
    by (rule sort_key_id_if_sorted)
  moreover have "length (map ?enc ex_ten) = 10" by (simp add: ex_ten_def)
  moreover have "battles_table (call replace_unpaired (RecordBattle ex_late) ex_db_full)
                 = map ?enc ex_ten @ [?enc ex_late]"
    by (subst c) simp
  ultimately have s: "getRecentBattles_statement (call replace_unpaired (RecordBattle ex_late) ex_db_full)
                   = map ?enc ex_ten"
    by (simp add: getRecentBattles_statement_def del: call.simps)
  have 3: "getRecentBattles ex_decode (call replace_unpaired (RecordBattle ex_late) ex_db_full)
                = Inr ex_ten"
    unfolding getRecentBattles_def s by (rule parse_rows_written) (rule ex_ten_given)
  have 4: "ex_three_moves \<notin> set (map moves ex_ten)"
    by (simp add: ex_ten_def ex_battle_def ex_three_moves_def)
  from 1 2 3 4 show ?thesis by blast
qed

end
